theory Spec2Isabelle
  imports Main
begin

section \<open>The rope text buffer (buffer/rope.go)\<close>

text \<open>
  A code point (Go \<open>rune\<close>, an \<open>int32\<close>) is an integer; line numbers, columns and global
  offsets (Go \<open>int\<close>) are integers too.  No arithmetic of the buffer leaves the range
  \<open>[-1, length + 1]\<close> of the document, so wrap-around plays no part.  A Go \<open>string\<close> and a
  \<open>[]byte\<close> are lists of bytes (naturals below 256).
\<close>

type_synonym rune = int

datatype error =
    LineOutOfBoundsEmpty int
  | LineNegative int
  | LineOutOfBounds int int
  | InvalidPosition int int error
  | DeleteFromEmptyBuffer
  | DeleteAtStartOfDocument
  | NothingToDeleteAtStart
  | RuneAtFailed error
  | IndexOutOfBoundsEmpty int
  | IndexOutOfBounds int int
  | LeafIndexOutOfBounds
  | NilLeftChild
  | NilRightChild
  | SinkError nat

text \<open>
  A value of type \<open>node\<close> is a Go \<open>*node\<close>: \<open>Nil\<close> is the nil pointer, \<open>Leaf d\<close> a node
  whose \<open>data\<close> is the non-nil slice \<open>d\<close>, \<open>Internal l r w\<close> a node with nil \<open>data\<close>,
  children \<open>l\<close> and \<open>r\<close> and weight \<open>w\<close>.  The tree is owned top-down and never shared,
  so in-place mutation of a node is the construction of the updated node.
\<close>

datatype node = Nil | Leaf "rune list" | Internal node node int

definition maxLeafSize :: int where
  "maxLeafSize = 1024"

record Rope =
  root :: node
  lineStarts :: "int list"

subsection \<open>Conversions between code points and UTF-8 strings\<close>

text \<open>
  \<open>string(runes)\<close> encodes every code point in UTF-8, an invalid one (negative, beyond
  U+10FFFF, or a surrogate) as U+FFFD; \<open>[]rune(s)\<close> decodes, as the Go runtime does.
\<close>

definition validRune :: "rune \<Rightarrow> rune" where
  "validRune r = (if 0 \<le> r \<and> r \<le> 0x10FFFF \<and> \<not> (0xD800 \<le> r \<and> r \<le> 0xDFFF) then r else 0xFFFD)"

definition encodeRune :: "rune \<Rightarrow> nat list" where
  "encodeRune r =
     (if 0 \<le> r \<and> r \<le> 0x7F then [nat r]
      else if 0 \<le> r \<and> r \<le> 0x7FF then [0xC0 + nat (r div 64), 0x80 + nat (r mod 64)]
      else if r < 0 \<or> 0x10FFFF < r \<or> (0xD800 \<le> r \<and> r \<le> 0xDFFF) then [0xEF, 0xBF, 0xBD]
      else if r \<le> 0xFFFF then
        [0xE0 + nat (r div 4096), 0x80 + nat ((r div 64) mod 64), 0x80 + nat (r mod 64)]
      else
        [0xF0 + nat (r div 262144), 0x80 + nat ((r div 4096) mod 64),
         0x80 + nat ((r div 64) mod 64), 0x80 + nat (r mod 64)])"

definition runesToString :: "rune list \<Rightarrow> nat list" where
  "runesToString rs = concat (map encodeRune rs)"

definition isCont :: "nat \<Rightarrow> bool" where
  "isCont b = (0x80 \<le> b \<and> b \<le> 0xBF)"

text \<open>
  The first code point of a non-empty string and the number of bytes it takes: the
  runtime's decoder, one function for each length of sequence.  A sequence that is cut
  short, has a byte that is no continuation byte, or encodes a value outside the range of
  its length is one byte of U+FFFD.
\<close>

definition decode2 :: "nat \<Rightarrow> nat list \<Rightarrow> rune \<times> nat" where
  "decode2 b0 bs =
     (case bs of
        b1 # _ \<Rightarrow>
          (if isCont b1 then
             (let r = int (b0 mod 32) * 64 + int (b1 mod 64)
              in if 0x7F < r then (r, 2) else (0xFFFD, 1))
           else (0xFFFD, 1))
      | _ \<Rightarrow> (0xFFFD, 1))"

definition decode3 :: "nat \<Rightarrow> nat list \<Rightarrow> rune \<times> nat" where
  "decode3 b0 bs =
     (case bs of
        b1 # b2 # _ \<Rightarrow>
          (if isCont b1 \<and> isCont b2 then
             (let r = int (b0 mod 16) * 4096 + int (b1 mod 64) * 64 + int (b2 mod 64)
              in if 0x7FF < r \<and> \<not> (0xD800 \<le> r \<and> r \<le> 0xDFFF) then (r, 3) else (0xFFFD, 1))
           else (0xFFFD, 1))
      | _ \<Rightarrow> (0xFFFD, 1))"

definition decode4 :: "nat \<Rightarrow> nat list \<Rightarrow> rune \<times> nat" where
  "decode4 b0 bs =
     (case bs of
        b1 # b2 # b3 # _ \<Rightarrow>
          (if isCont b1 \<and> isCont b2 \<and> isCont b3 then
             (let r = int (b0 mod 8) * 262144 + int (b1 mod 64) * 4096
                      + int (b2 mod 64) * 64 + int (b3 mod 64)
              in if 0xFFFF < r \<and> r \<le> 0x10FFFF then (r, 4) else (0xFFFD, 1))
           else (0xFFFD, 1))
      | _ \<Rightarrow> (0xFFFD, 1))"

fun decodeRune :: "nat list \<Rightarrow> rune \<times> nat" where
  "decodeRune [] = (0xFFFD, 1)"
| "decodeRune (b0 # bs) =
     (if b0 < 0x80 then (int b0, 1)
      else if 0xC0 \<le> b0 \<and> b0 < 0xE0 then decode2 b0 bs
      else if 0xE0 \<le> b0 \<and> b0 < 0xF0 then decode3 b0 bs
      else if 0xF0 \<le> b0 \<and> b0 < 0xF8 then decode4 b0 bs
      else (0xFFFD, 1))"

function stringToRunes :: "nat list \<Rightarrow> rune list" where
  "stringToRunes [] = []"
| "stringToRunes (b # bs) =
     (case decodeRune (b # bs) of (r, k) \<Rightarrow> r # stringToRunes (drop (k - 1) bs))"
  by pat_completeness auto
termination
  by (relation "measure length") auto

subsection \<open>Node helper methods\<close>

text \<open>
  \<open>length\<close> is never called on a nil pointer: \<open>Rope\<close> tests the root first and the
  recursion tests the right child, whose absence adds nothing; the \<open>Nil\<close> equation is that
  test.
\<close>

fun length_node :: "node \<Rightarrow> int" where
  "length_node Nil = 0"
| "length_node (Leaf d) = int (length d)"
| "length_node (Internal l r w) = w + length_node r"

text \<open>
  \<open>runeAt\<close> tests both children for nil before it descends and \<open>RuneAt\<close> tests the root, so
  no call reaches a nil receiver; the \<open>Nil\<close> equation gives such a call the error of the
  caller's test.
\<close>

fun runeAt :: "node \<Rightarrow> int \<Rightarrow> error + rune" where
  "runeAt Nil index = Inl NilLeftChild"
| "runeAt (Leaf d) index =
     (if index < 0 \<or> index \<ge> int (length d) then Inl LeafIndexOutOfBounds
      else Inr (d ! nat index))"
| "runeAt (Internal l r w) index =
     (if index < w then (if l = Nil then Inl NilLeftChild else runeAt l index)
      else (if r = Nil then Inl NilRightChild else runeAt r (index - w)))"

text \<open>
  \<open>insert\<close> and \<open>delete\<close> return \<open>None\<close> where the Go code panics: a nil receiver, or a
  slice expression whose bounds lie outside the leaf.
\<close>

fun insert_node :: "node \<Rightarrow> int \<Rightarrow> rune \<Rightarrow> node option" where
  "insert_node Nil index ru = None"
| "insert_node (Leaf d) index ru =
     (if index < 0 \<or> int (length d) < index then None
      else
        (let d' = take (nat index) d @ [ru] @ drop (nat index) d in
         if int (length d') > maxLeafSize then
           (let mid = length d' div 2;
                leftData = take mid d';
                rightData = drop mid d'
            in Some (Internal (Leaf leftData) (Leaf rightData) (int (length leftData))))
         else Some (Leaf d')))"
| "insert_node (Internal l r w) index ru =
     (if index < w then
        (case insert_node l index ru of
           None \<Rightarrow> None
         | Some l' \<Rightarrow> Some (Internal l' r (w + 1)))
      else
        (case insert_node r (index - w) ru of
           None \<Rightarrow> None
         | Some r' \<Rightarrow> Some (Internal l r' w)))"

definition promote :: "node \<Rightarrow> node \<Rightarrow> int \<Rightarrow> node" where
  "promote l r w =
     (if l \<noteq> Nil \<and> length_node l = 0 then r
      else if r \<noteq> Nil \<and> length_node r = 0 then l
      else Internal l r w)"

fun delete_node :: "node \<Rightarrow> int \<Rightarrow> node option" where
  "delete_node Nil index = None"
| "delete_node (Leaf d) index =
     (if index < 0 \<or> int (length d) \<le> index then None
      else Some (Leaf (take (nat index) d @ drop (nat index + 1) d)))"
| "delete_node (Internal l r w) index =
     (if index < w then
        (case delete_node l index of
           None \<Rightarrow> None
         | Some l' \<Rightarrow> Some (promote l' r (w - 1)))
      else
        (case delete_node r (index - w) of
           None \<Rightarrow> None
         | Some r' \<Rightarrow> Some (promote l r' w)))"

subsection \<open>Writing to an \<open>io.Writer\<close>\<close>

text \<open>
  An \<open>io.Writer\<close> with state \<open>'w\<close> is its \<open>Write\<close> method: from the state and the bytes
  offered it returns the count written, the error if any, and the new state.  Every caller
  of \<open>writeTo\<close> skips a nil node, and the \<open>Nil\<close> equation is that skip.
\<close>

type_synonym 'w writer = "'w \<Rightarrow> nat list \<Rightarrow> (int \<times> error option) \<times> 'w"

fun writeTo :: "'w writer \<Rightarrow> node \<Rightarrow> 'w \<Rightarrow> (int \<times> error option) \<times> 'w" where
  "writeTo W Nil s = ((0, None), s)"
| "writeTo W (Leaf d) s = W s (runesToString d)"
| "writeTo W (Internal l r w) s =
     (case writeTo W l s of
        ((written, Some err), s1) \<Rightarrow> ((0, Some err), s1)
      | ((written, None), s1) \<Rightarrow>
          (case writeTo W r s1 of
             ((written', Some err), s2) \<Rightarrow> ((0 + written, Some err), s2)
           | ((written', None), s2) \<Rightarrow> ((0 + written + written', None), s2)))"

definition WriteTo :: "'w writer \<Rightarrow> Rope \<Rightarrow> 'w \<Rightarrow> (int \<times> error option) \<times> 'w" where
  "WriteTo W r s = (if root r = Nil then ((0, None), s) else writeTo W (root r) s)"

text \<open>\<open>strings.Builder\<close>: its \<open>Write\<close> appends and never fails.\<close>

definition builderWrite :: "nat list writer" where
  "builderWrite s p = ((int (length p), None), s @ p)"

subsection \<open>The line index\<close>

text \<open>
  \<open>rebuildLineIndexHelper\<close> appends to the slice behind the pointer it is given; the model
  takes the slice and returns it extended.  Both callers skip a nil node.
\<close>

fun leafLineStarts :: "int \<Rightarrow> rune list \<Rightarrow> int list" where
  "leafLineStarts offset [] = []"
| "leafLineStarts offset (r # rs) =
     (if r = 10 then [offset + 1] else []) @ leafLineStarts (offset + 1) rs"

fun rebuildLineIndexHelper :: "node \<Rightarrow> int \<Rightarrow> int list \<Rightarrow> int list" where
  "rebuildLineIndexHelper Nil offset ls = ls"
| "rebuildLineIndexHelper (Leaf d) offset ls = ls @ leafLineStarts offset d"
| "rebuildLineIndexHelper (Internal l r w) offset ls =
     rebuildLineIndexHelper r (offset + w) (rebuildLineIndexHelper l offset ls)"

definition rebuildLineIndex :: "Rope \<Rightarrow> Rope" where
  "rebuildLineIndex r =
     (if root r = Nil then r\<lparr>lineStarts := [0]\<rparr>
      else r\<lparr>lineStarts := rebuildLineIndexHelper (root r) 0 [0]\<rparr>)"

definition NewRope :: "nat list \<Rightarrow> Rope" where
  "NewRope initialText = rebuildLineIndex \<lparr>root = Leaf (stringToRunes initialText), lineStarts = []\<rparr>"

definition LineCount :: "Rope \<Rightarrow> int" where
  "LineCount r = (if length (lineStarts r) = 0 then 1 else int (length (lineStarts r)))"

text \<open>
  \<open>sort.SearchInts a x\<close> on an ascending slice is the smallest index whose element is at
  least \<open>x\<close>, or the length when there is none.
\<close>

definition SearchInts :: "int list \<Rightarrow> int \<Rightarrow> int" where
  "SearchInts a x = int (length (takeWhile (\<lambda>v. v < x) a))"

definition findLine :: "Rope \<Rightarrow> int \<Rightarrow> int" where
  "findLine r index =
     (let i = SearchInts (lineStarts r) index in
      if i = 0 then 0
      else if i < int (length (lineStarts r)) \<and> lineStarts r ! nat i = index then i
      else i - 1)"

text \<open>The loop \<open>for i := line + 1; i < len(lineStarts); i++\<close> adding \<open>d\<close> to each entry.\<close>

definition shiftFrom :: "int \<Rightarrow> int \<Rightarrow> int list \<Rightarrow> int list" where
  "shiftFrom line d ls = take (nat (line + 1)) ls @ map (\<lambda>v. v + d) (drop (nat (line + 1)) ls)"

definition updateLineIndexOnInsert :: "Rope \<Rightarrow> int \<Rightarrow> rune \<Rightarrow> Rope" where
  "updateLineIndexOnInsert r index ru =
     (let line = findLine r index in
      if ru = 10 then
        (let newLineStartIndex = index + 1;
             ls = shiftFrom line 1 (lineStarts r)
         in r\<lparr>lineStarts := take (nat (line + 1)) ls @ [newLineStartIndex] @ drop (nat (line + 1)) ls\<rparr>)
      else r\<lparr>lineStarts := shiftFrom line 1 (lineStarts r)\<rparr>)"

definition updateLineIndexOnDelete :: "Rope \<Rightarrow> int \<Rightarrow> rune \<Rightarrow> Rope" where
  "updateLineIndexOnDelete r index ru =
     (let line = findLine r index in
      if ru = 10 then
        (let ls = (if line + 1 < int (length (lineStarts r))
                   then take (nat (line + 1)) (lineStarts r) @ drop (nat (line + 2)) (lineStarts r)
                   else lineStarts r)
         in r\<lparr>lineStarts := shiftFrom line (- 1) ls\<rparr>)
      else r\<lparr>lineStarts := shiftFrom line (- 1) (lineStarts r)\<rparr>)"

subsection \<open>Positions, rebalancing and the buffer interface\<close>

text \<open>\<open>getIndex\<close> returns the pair the Go function returns: an offset and the error or nil.\<close>

definition getIndex :: "Rope \<Rightarrow> int \<Rightarrow> int \<Rightarrow> int \<times> error option" where
  "getIndex r line col =
     (if root r = Nil then
        (if line = 0 \<and> col = 0 then (0, None) else (0, Some (LineOutOfBoundsEmpty line)))
      else if line < 0 then (0, Some (LineNegative line))
      else if line \<ge> int (length (lineStarts r)) then
        (length_node (root r), Some (LineOutOfBounds line (int (length (lineStarts r)) - 1)))
      else
        (let startIndex = lineStarts r ! nat line;
             lineCharLength =
               (if line + 1 < int (length (lineStarts r))
                then (lineStarts r ! nat (line + 1) - startIndex) - 1
                else length_node (root r) - startIndex);
             col1 = (if col < 0 then 0 else col);
             col2 = (if col1 > lineCharLength then lineCharLength else col1)
         in (startIndex + col2, None)))"

definition RuneAt :: "Rope \<Rightarrow> int \<Rightarrow> error + rune" where
  "RuneAt r index =
     (if root r = Nil then Inl (IndexOutOfBoundsEmpty index)
      else
        (let len = length_node (root r) in
         if index < 0 \<or> index \<ge> len then Inl (IndexOutOfBounds index len)
         else runeAt (root r) index))"

text \<open>
  The ratio of the two sizes is computed in \<open>float64\<close> and compared with 3.0; for sizes
  below \<open>2^52\<close> that is the integer comparison written here.
\<close>

definition shouldRebalance :: "Rope \<Rightarrow> bool" where
  "shouldRebalance r =
     (case root r of
        Internal l rt w \<Rightarrow>
          (let leftLen = w;
               rightLen = length_node (root r) - leftLen
           in if leftLen = 0 \<or> rightLen = 0 then False
              else max leftLen rightLen > 3 * min leftLen rightLen)
      | _ \<Rightarrow> False)"

definition rebalance :: "Rope \<Rightarrow> Rope" where
  "rebalance r =
     (if root r = Nil then r
      else
        (let content = snd (writeTo builderWrite (root r) [])
         in rebuildLineIndex (r\<lparr>root := Leaf (stringToRunes content)\<rparr>)))"

text \<open>
  \<open>Insert\<close> and \<open>Delete\<close> mutate the rope and return an error or nil: the model returns
  the rope after the call with the error, and \<open>None\<close> where the call panics.
\<close>

definition Insert :: "Rope \<Rightarrow> int \<Rightarrow> int \<Rightarrow> rune \<Rightarrow> (Rope \<times> error option) option" where
  "Insert r0 line col ru =
     (let r = (if root r0 = Nil then r0\<lparr>root := Leaf []\<rparr> else r0) in
      case getIndex r line col of
        (index, Some err) \<Rightarrow> Some (r, Some (InvalidPosition line col err))
      | (index, None) \<Rightarrow>
          (case insert_node (root r) index ru of
             None \<Rightarrow> None
           | Some n \<Rightarrow>
               (let r1 = updateLineIndexOnInsert (r\<lparr>root := n\<rparr>) index ru
                in Some (if shouldRebalance r1 then rebalance r1 else r1, None))))"

definition Delete :: "Rope \<Rightarrow> int \<Rightarrow> int \<Rightarrow> (Rope \<times> error option) option" where
  "Delete r line col =
     (if root r = Nil then Some (r, Some DeleteFromEmptyBuffer)
      else if col = 0 \<and> line = 0 then Some (r, Some DeleteAtStartOfDocument)
      else
        (case getIndex r line col of
           (index, Some err) \<Rightarrow> Some (r, Some (InvalidPosition line col err))
         | (index, None) \<Rightarrow>
             (if index = 0 then Some (r, Some NothingToDeleteAtStart)
              else
                (let deleteIndex = index - 1 in
                 case RuneAt r deleteIndex of
                   Inl err \<Rightarrow> Some (r, Some (RuneAtFailed err))
                 | Inr ru \<Rightarrow>
                     (case delete_node (root r) deleteIndex of
                        None \<Rightarrow> None
                      | Some n \<Rightarrow>
                          (let r1 = updateLineIndexOnDelete (r\<lparr>root := n\<rparr>) deleteIndex ru
                           in Some (if shouldRebalance r1 then rebalance r1 else r1, None)))))))"

subsection \<open>Reading lines\<close>

text \<open>
  \<open>sliceHelper\<close> writes the overlap of each leaf to a \<open>strings.Builder\<close>; the model
  returns the builder's content, and \<open>None\<close> where the descent reaches a nil child.
\<close>

fun sliceHelper :: "node \<Rightarrow> int \<Rightarrow> int \<Rightarrow> int \<Rightarrow> nat list \<Rightarrow> nat list option" where
  "sliceHelper Nil startIndex endIndex offset res = None"
| "sliceHelper (Leaf d) startIndex endIndex offset res =
     (let leafStart = offset;
          sliceStart = max 0 (startIndex - leafStart);
          sliceEnd = min (int (length d)) (endIndex - leafStart)
      in if sliceStart < sliceEnd
         then Some (res @ runesToString (take (nat sliceEnd - nat sliceStart) (drop (nat sliceStart) d)))
         else Some res)"
| "sliceHelper (Internal l r w) startIndex endIndex offset res =
     (let leftEnd = offset + w in
      case (if startIndex < leftEnd \<and> offset < endIndex
            then sliceHelper l startIndex endIndex offset res else Some res) of
        None \<Rightarrow> None
      | Some res1 \<Rightarrow>
          (if endIndex > leftEnd \<and> leftEnd < endIndex
           then sliceHelper r startIndex endIndex leftEnd res1 else Some res1))"

definition slice :: "Rope \<Rightarrow> int \<Rightarrow> int \<Rightarrow> nat list option" where
  "slice r startIndex endIndex =
     (if root r = Nil \<or> startIndex \<ge> endIndex then Some []
      else sliceHelper (root r) startIndex endIndex 0 [])"

definition sliceRuneAt :: "Rope \<Rightarrow> int \<Rightarrow> error + rune" where
  "sliceRuneAt r index =
     (if root r = Nil then Inl (IndexOutOfBoundsEmpty index)
      else
        (let len = length_node (root r) in
         if index < 0 \<or> index \<ge> len then Inl (IndexOutOfBounds index len)
         else runeAt (root r) index))"

definition GetLine :: "Rope \<Rightarrow> int \<Rightarrow> nat list option" where
  "GetLine r line =
     (if root r = Nil then Some []
      else if line < 0 \<or> line \<ge> int (length (lineStarts r)) then Some []
      else
        (let startIndex = lineStarts r ! nat line;
             endIndex = (if line + 1 < int (length (lineStarts r))
                         then lineStarts r ! nat (line + 1)
                         else length_node (root r));
             endIndex1 =
               (if endIndex > startIndex \<and> sliceRuneAt r (endIndex - 1) = Inr 10 then
                  (if endIndex - 1 > startIndex \<and> sliceRuneAt r (endIndex - 1 - 1) = Inr 13
                   then endIndex - 1 - 1 else endIndex - 1)
                else endIndex)
         in slice r startIndex endIndex1))"

section \<open>Specification-level notions\<close>

text \<open>
  The code points a tree holds, read off its leaves from left to right, and the trees
  \<open>NewRope\<close>, \<open>insert\<close>, \<open>delete\<close> and \<open>rebalance\<close> build: no nil child, and every weight
  the number of code points below the left child.
\<close>

fun content :: "node \<Rightarrow> rune list" where
  "content Nil = []"
| "content (Leaf d) = d"
| "content (Internal l r w) = content l @ content r"

fun wf_node :: "node \<Rightarrow> bool" where
  "wf_node Nil = False"
| "wf_node (Leaf d) = True"
| "wf_node (Internal l r w) = (wf_node l \<and> wf_node r \<and> w = int (length (content l)))"

definition runes :: "Rope \<Rightarrow> rune list" where
  "runes r = content (root r)"

text \<open>
  The document as every reader of the buffer sees it: \<open>WriteTo\<close> and \<open>GetLine\<close> convert
  the stored code points with \<open>string\<close>, which shows an invalid one as U+FFFD.
\<close>

definition docString :: "Rope \<Rightarrow> rune list" where
  "docString r = map validRune (runes r)"

text \<open>
  The line index a document should have: offset 0, and the offset after every newline, in
  ascending order.  \<open>lineLength\<close> is the number of code points of a line without its
  newline, \<open>offsetOf\<close> the global offset of a position whose column is clamped to
  \<open>[0, lineLength]\<close>.
\<close>

definition lineStartsOf :: "rune list \<Rightarrow> int list" where
  "lineStartsOf c = 0 # leafLineStarts 0 c"

definition lineLength :: "rune list \<Rightarrow> int \<Rightarrow> int" where
  "lineLength c line =
     (if line + 1 < int (length (lineStartsOf c))
      then lineStartsOf c ! nat (line + 1) - lineStartsOf c ! nat line - 1
      else int (length c) - lineStartsOf c ! nat line)"

definition offsetOf :: "rune list \<Rightarrow> int \<Rightarrow> int \<Rightarrow> int" where
  "offsetOf c line col = lineStartsOf c ! nat line + max 0 (min col (lineLength c line))"

definition rope_inv :: "Rope \<Rightarrow> bool" where
  "rope_inv r = (wf_node (root r) \<and> lineStarts r = lineStartsOf (content (root r)))"

text \<open>The ropes a client can hold: built by \<open>NewRope\<close>, then changed by calls that succeed.\<close>

inductive reachable :: "Rope \<Rightarrow> bool" where
  reachable_new: "reachable (NewRope t)"
| reachable_insert: "reachable r \<Longrightarrow> Insert r line col ru = Some (r', None) \<Longrightarrow> reachable r'"
| reachable_delete: "reachable r \<Longrightarrow> Delete r line col = Some (r', None) \<Longrightarrow> reachable r'"

text \<open>
  A run of \<open>Insert\<close> calls that all succeed, and the same run on a plain list of code
  points, where an insertion at a line the document has puts the code point at the clamped
  offset and any other line is refused.
\<close>

fun insertAll :: "Rope \<Rightarrow> (int \<times> int \<times> rune) list \<Rightarrow> Rope option" where
  "insertAll r [] = Some r"
| "insertAll r ((line, col, ru) # calls) =
     (case Insert r line col ru of
        Some (r', None) \<Rightarrow> insertAll r' calls
      | _ \<Rightarrow> None)"

definition specInsert :: "rune list \<Rightarrow> int \<Rightarrow> int \<Rightarrow> rune \<Rightarrow> rune list option" where
  "specInsert doc line col ru =
     (if 0 \<le> line \<and> line < int (length (lineStartsOf doc))
      then Some (take (nat (offsetOf doc line col)) doc @ ru # drop (nat (offsetOf doc line col)) doc)
      else None)"

fun specInsertAll :: "rune list \<Rightarrow> (int \<times> int \<times> rune) list \<Rightarrow> rune list option" where
  "specInsertAll doc [] = Some doc"
| "specInsertAll doc ((line, col, ru) # calls) =
     (case specInsert doc line col ru of
        Some doc' \<Rightarrow> specInsertAll doc' calls
      | None \<Rightarrow> None)"

text \<open>
  A sink with room for a number of bytes: a write that fits is taken whole; one that does
  not is cut at the room left and reported as an error with the count written, as a full
  disk does.
\<close>

definition limitedWrite :: "(nat list \<times> nat) writer" where
  "limitedWrite s p =
     (case s of (out, room) \<Rightarrow>
        if length p \<le> room then ((int (length p), None), (out @ p, room - length p))
        else ((int room, Some (SinkError room)), (out @ take room p, 0)))"

text \<open>
  The text of a line as \<open>GetLine\<close> gives it: the code points before the newline, less a
  carriage return that stands right before the newline.
\<close>

definition lineText :: "rune list \<Rightarrow> int \<Rightarrow> rune list" where
  "lineText c line =
     (let t = take (nat (lineLength c line)) (drop (nat (lineStartsOf c ! nat line)) c)
      in if line + 1 < int (length (lineStartsOf c)) \<and> t \<noteq> [] \<and> last t = 13 then butlast t else t)"

section \<open>The editor's undo and redo (editor/)\<close>

text \<open>
  The fields of \<open>Editor\<close> that the input loop, the key handler, the grouping helpers and
  undo and redo read or write; the terminal, the viewport and the texts of the prompts and
  of the search play no part in them and are left out.  The field \<open>r\<close> of \<open>opEntry\<close> is
  \<open>opRune\<close> here.  The buffer is the rope (\<open>NewEditor\<close> installs \<open>buffer.NewRope\<close>).  A
  slice used as a stack has its top at the end of the list.  Times are milliseconds.  The
  status line is a fixed text or a text formatted from an error.
\<close>

record opEntry =
  insertLine :: int
  insertCol :: int
  delLine :: int
  delCol :: int
  opRune :: rune

record undoAction =
  isInsert :: bool
  ops :: "opEntry list"
  groupID :: int
  isBackspace :: bool

datatype message =
    Text string
  | InsertErrorMessage error
  | CutFailedMessage
  | PasteFailedMessage
  | PasteErrorMessage error

record Editor =
  buffer :: Rope
  cursorX :: int
  cursorY :: int
  extraCursorHeight :: int
  dirty :: bool
  statusMessage :: message
  undoStack :: "undoAction list"
  redoStack :: "undoAction list"
  selectionActive :: bool
  selectionAnchorX :: int
  selectionAnchorY :: int
  undoGrouping :: bool
  currentGroupID :: int
  lastGroupID :: int
  typingEntries :: "opEntry list"
  typingActive :: bool
  lastTypeTime :: int
  typeGroupThreshold :: int
  backspaceEntries :: "opEntry list"
  backspaceActive :: bool
  deleteEntries :: "opEntry list"
  deleteActive :: bool
  lastDeleteTime :: int
  deleteThreshold :: int
  isQuitting :: bool
  isGotoLine :: bool
  isConfirmingReplace :: bool
  isFinding :: bool
  isReplacing :: bool
  isSaveAs :: bool

text \<open>\<open>NewEditor\<close> on the content of the file it was given (empty when there is none).\<close>

definition NewEditor :: "nat list \<Rightarrow> Editor" where
  "NewEditor fileContent =
     \<lparr>buffer = NewRope fileContent, cursorX = 0, cursorY = 0, extraCursorHeight = 0,
      dirty = False, statusMessage = Text [], undoStack = [], redoStack = [],
      selectionActive = False, selectionAnchorX = 0, selectionAnchorY = 0,
      undoGrouping = False, currentGroupID = 0, lastGroupID = 1,
      typingEntries = [], typingActive = False, lastTypeTime = 0, typeGroupThreshold = 900,
      backspaceEntries = [], backspaceActive = False, deleteEntries = [], deleteActive = False,
      lastDeleteTime = 0, deleteThreshold = 900, isQuitting = False, isGotoLine = False,
      isConfirmingReplace = False, isFinding = False, isReplacing = False, isSaveAs = False\<rparr>"

text \<open>
  What lies outside the code modelled here.  \<open>otherKeys\<close> stands for the handlers of the
  command keys (select all, quit, save, save as, copy, line numbers, go to line, find,
  replace, non-printable characters), none of which changes the text; \<open>promptKeys\<close> for
  the handlers of a key while a prompt is open, \<open>promptEscape\<close> for the cursor keys in a
  prompt, \<open>navigation\<close> for the cursor keys in the text and \<open>cancelMode\<close> for a bare
  escape.  Then the text on the system clipboard (none when reading it fails), the outcome
  of the call that sets it, the clock, whether standard input is a file, the bytes that
  follow an escape byte on it within the time the reader waits, and the tables of Go's
  \<open>unicode\<close> package.  A function of the editor returns \<open>None\<close> where the Go code panics,
  and a handler that returns an \<open>error\<close> returns it beside the editor.
\<close>

datatype prompt = ConfirmReplace | Quit | GotoLine | SaveAs | Replace | Find

record world =
  otherKeys :: "rune \<Rightarrow> Editor \<Rightarrow> (Editor \<times> error option) option"
  promptKeys :: "prompt \<Rightarrow> rune \<Rightarrow> Editor \<Rightarrow> (Editor \<times> error option) option"
  promptEscape :: "nat \<Rightarrow> nat list \<Rightarrow> Editor \<Rightarrow> Editor option"
  navigation :: "nat \<Rightarrow> nat list \<Rightarrow> Editor \<Rightarrow> Editor option"
  cancelMode :: "Editor \<Rightarrow> Editor option"
  clipboardText :: "nat list option"
  clipboardOK :: bool
  now :: int
  stdinIsFile :: bool
  pending :: "nat list"
  isLetter :: "rune \<Rightarrow> bool"
  isNumber :: "rune \<Rightarrow> bool"
  isSpace :: "rune \<Rightarrow> bool"
  isUpper :: "rune \<Rightarrow> bool"
  toUpper :: "rune \<Rightarrow> rune"
  toLower :: "rune \<Rightarrow> rune"

subsection \<open>Calls of the buffer whose error the editor drops\<close>

definition bufInsert :: "int \<Rightarrow> int \<Rightarrow> rune \<Rightarrow> Editor \<Rightarrow> Editor option" where
  "bufInsert line col ru e =
     (case Insert (buffer e) line col ru of
        None \<Rightarrow> None
      | Some (b, err) \<Rightarrow> Some (e\<lparr>buffer := b\<rparr>))"

definition bufDelete :: "int \<Rightarrow> int \<Rightarrow> Editor \<Rightarrow> Editor option" where
  "bufDelete line col e =
     (case Delete (buffer e) line col of
        None \<Rightarrow> None
      | Some (b, err) \<Rightarrow> Some (e\<lparr>buffer := b\<rparr>))"

text \<open>\<open>[]rune(e.buffer.GetLine(line))\<close>.\<close>

definition lineRunes :: "Editor \<Rightarrow> int \<Rightarrow> rune list option" where
  "lineRunes e line = map_option stringToRunes (GetLine (buffer e) line)"

text \<open>A loop over a list whose body may panic.\<close>

fun forEach :: "('a \<Rightarrow> 's \<Rightarrow> 's option) \<Rightarrow> 'a list \<Rightarrow> 's \<Rightarrow> 's option" where
  "forEach f [] s = Some s"
| "forEach f (x # xs) s = (case f x s of None \<Rightarrow> None | Some s' \<Rightarrow> forEach f xs s')"

subsection \<open>Undo grouping helpers (editor/input.go)\<close>

definition beginUndoGroup :: "Editor \<Rightarrow> Editor" where
  "beginUndoGroup e =
     e\<lparr>undoGrouping := True, currentGroupID := lastGroupID e, lastGroupID := lastGroupID e + 1\<rparr>"

definition endUndoGroup :: "Editor \<Rightarrow> Editor" where
  "endUndoGroup e = e\<lparr>undoGrouping := False\<rparr>"

definition pushUndoInsertBlock :: "opEntry list \<Rightarrow> Editor \<Rightarrow> Editor" where
  "pushUndoInsertBlock entries e =
     (if length entries = 0 then e
      else
        (let action = \<lparr>isInsert = True, ops = entries,
                       groupID = (if undoGrouping e then currentGroupID e else 0),
                       isBackspace = False\<rparr>
         in e\<lparr>undoStack := undoStack e @ [action]\<rparr>))"

definition pushUndoDeleteBlock :: "opEntry list \<Rightarrow> bool \<Rightarrow> Editor \<Rightarrow> Editor" where
  "pushUndoDeleteBlock entries isBksp e =
     (if length entries = 0 then e
      else
        (let action = \<lparr>isInsert = False, ops = entries,
                       groupID = (if undoGrouping e then currentGroupID e else 0),
                       isBackspace = isBksp\<rparr>
         in e\<lparr>undoStack := undoStack e @ [action]\<rparr>))"

definition pushUndoDeleteIfExternalGrouping :: "int \<Rightarrow> int \<Rightarrow> rune \<Rightarrow> Editor \<Rightarrow> Editor" where
  "pushUndoDeleteIfExternalGrouping line col ru e =
     (let action = \<lparr>isInsert = False,
                    ops = [\<lparr>insertLine = line, insertCol = col, delLine = 0, delCol = 0, opRune = ru\<rparr>],
                    groupID = (if undoGrouping e then currentGroupID e else 0),
                    isBackspace = False\<rparr>
      in e\<lparr>undoStack := undoStack e @ [action]\<rparr>)"

definition flushTypingGroup :: "Editor \<Rightarrow> Editor" where
  "flushTypingGroup e =
     (if \<not> typingActive e then e
      else
        (let e1 = (if length (typingEntries e) > 0 then pushUndoInsertBlock (typingEntries e) e else e)
         in e1\<lparr>typingEntries := [], typingActive := False\<rparr>))"

definition flushBackspaceGroup :: "Editor \<Rightarrow> Editor" where
  "flushBackspaceGroup e =
     (if \<not> backspaceActive e then e
      else
        (let e1 = (if length (backspaceEntries e) > 0
                   then pushUndoDeleteBlock (backspaceEntries e) True e else e)
         in e1\<lparr>backspaceEntries := [], backspaceActive := False\<rparr>))"

definition flushDeleteGroup :: "Editor \<Rightarrow> Editor" where
  "flushDeleteGroup e =
     (if \<not> deleteActive e then e
      else
        (let e1 = (if length (deleteEntries e) > 0
                   then pushUndoDeleteBlock (deleteEntries e) False e else e)
         in e1\<lparr>deleteEntries := [], deleteActive := False\<rparr>))"

definition flushTypingAndBackspaceIfNeeded :: "Editor \<Rightarrow> Editor" where
  "flushTypingAndBackspaceIfNeeded e = flushBackspaceGroup (flushTypingGroup e)"

definition flushEditGroups :: "Editor \<Rightarrow> Editor" where
  "flushEditGroups e = flushDeleteGroup (flushBackspaceGroup (flushTypingGroup e))"

subsection \<open>Undo and redo (editor/main.go)\<close>

text \<open>
  The position of the cursor after a block has been put back or typed again: after the
  last code point of the block.
\<close>

definition cursorAfter :: "opEntry \<Rightarrow> Editor \<Rightarrow> Editor" where
  "cursorAfter lastOp e =
     (if opRune lastOp = 10 then e\<lparr>cursorY := insertLine lastOp + 1, cursorX := 0\<rparr>
      else e\<lparr>cursorY := insertLine lastOp, cursorX := insertCol lastOp + 1\<rparr>)"

definition performUndo :: "undoAction \<Rightarrow> Editor \<Rightarrow> Editor option" where
  "performUndo action e =
     (if isInsert action then
        (case forEach (\<lambda>op. bufDelete (delLine op) (delCol op)) (rev (ops action)) e of
           None \<Rightarrow> None
         | Some e1 \<Rightarrow>
             Some ((if length (ops action) > 0
                    then e1\<lparr>cursorY := insertLine (ops action ! 0), cursorX := insertCol (ops action ! 0)\<rparr>
                    else e1)\<lparr>dirty := True\<rparr>))
      else
        (case forEach (\<lambda>op. bufInsert (insertLine op) (insertCol op) (opRune op)) (ops action) e of
           None \<Rightarrow> None
         | Some e1 \<Rightarrow>
             Some ((if length (ops action) > 0 then
                      (if isBackspace action then cursorAfter (last (ops action)) e1
                       else e1\<lparr>cursorY := insertLine (ops action ! 0),
                               cursorX := insertCol (ops action ! 0)\<rparr>)
                    else e1)\<lparr>dirty := True\<rparr>)))"

definition performRedo :: "undoAction \<Rightarrow> Editor \<Rightarrow> Editor option" where
  "performRedo action e =
     (if isInsert action then
        (case forEach (\<lambda>op. bufInsert (insertLine op) (insertCol op) (opRune op)) (ops action) e of
           None \<Rightarrow> None
         | Some e1 \<Rightarrow>
             Some ((if length (ops action) > 0 then cursorAfter (last (ops action)) e1
                    else e1)\<lparr>dirty := True\<rparr>))
      else
        (case forEach (\<lambda>op. bufDelete (insertLine op) (insertCol op + 1)) (rev (ops action)) e of
           None \<Rightarrow> None
         | Some e1 \<Rightarrow>
             Some ((if length (ops action) > 0
                    then e1\<lparr>cursorY := insertLine (ops action ! 0), cursorX := insertCol (ops action ! 0)\<rparr>
                    else e1)\<lparr>dirty := True\<rparr>)))"

text \<open>
  The loops of \<open>undo\<close> and \<open>redo\<close> over the rest of a group.  \<open>performUndo\<close> and
  \<open>performRedo\<close> leave both stacks alone, so the loop runs down the stack it was entered
  with, given here top first.
\<close>

fun undoGroupLoop :: "int \<Rightarrow> undoAction list \<Rightarrow> Editor \<Rightarrow> Editor option" where
  "undoGroupLoop gid [] e = Some e"
| "undoGroupLoop gid (next # rest) e =
     (if groupID next \<noteq> gid then Some e
      else
        (case performUndo next (e\<lparr>undoStack := rev rest, redoStack := redoStack e @ [next]\<rparr>) of
           None \<Rightarrow> None
         | Some e1 \<Rightarrow> undoGroupLoop gid rest e1))"

fun redoGroupLoop :: "int \<Rightarrow> undoAction list \<Rightarrow> Editor \<Rightarrow> Editor option" where
  "redoGroupLoop gid [] e = Some e"
| "redoGroupLoop gid (next # rest) e =
     (if groupID next \<noteq> gid then Some e
      else
        (case performRedo next (e\<lparr>redoStack := rev rest, undoStack := undoStack e @ [next]\<rparr>) of
           None \<Rightarrow> None
         | Some e1 \<Rightarrow> redoGroupLoop gid rest e1))"

definition undo :: "Editor \<Rightarrow> Editor option" where
  "undo e0 =
     (let e = flushEditGroups e0 in
      if length (undoStack e) = 0 then Some (e\<lparr>statusMessage := Text ''Nothing to undo''\<rparr>)
      else
        (let action = last (undoStack e);
             e1 = e\<lparr>undoStack := butlast (undoStack e), redoStack := redoStack e @ [action]\<rparr>
         in case performUndo action e1 of
              None \<Rightarrow> None
            | Some e2 \<Rightarrow>
                (case (if groupID action > 0
                       then undoGroupLoop (groupID action) (rev (undoStack e2)) e2
                       else Some e2) of
                   None \<Rightarrow> None
                 | Some e3 \<Rightarrow> Some (e3\<lparr>statusMessage := Text ''Undid last action''\<rparr>))))"

definition redo :: "Editor \<Rightarrow> Editor option" where
  "redo e0 =
     (let e = flushEditGroups e0 in
      if length (redoStack e) = 0 then Some (e\<lparr>statusMessage := Text ''Nothing to redo''\<rparr>)
      else
        (let action = last (redoStack e);
             e1 = e\<lparr>redoStack := butlast (redoStack e), undoStack := undoStack e @ [action]\<rparr>
         in case performRedo action e1 of
              None \<Rightarrow> None
            | Some e2 \<Rightarrow>
                (case (if groupID action > 0
                       then redoGroupLoop (groupID action) (rev (redoStack e2)) e2
                       else Some e2) of
                   None \<Rightarrow> None
                 | Some e3 \<Rightarrow> Some (e3\<lparr>statusMessage := Text ''Redid last action''\<rparr>))))"

subsection \<open>Selections and the clipboard (editor/text_manipulation.go, editor/render.go)\<close>

definition getSelectionCoords :: "Editor \<Rightarrow> int \<times> int \<times> int \<times> int" where
  "getSelectionCoords e =
     (if selectionAnchorY e < cursorY e
         \<or> (selectionAnchorY e = cursorY e \<and> selectionAnchorX e < cursorX e)
      then (selectionAnchorY e, selectionAnchorX e, cursorY e, cursorX e)
      else (cursorY e, cursorX e, selectionAnchorY e, selectionAnchorX e))"

text \<open>\<open>runes[a:b]\<close> and \<open>runes[i]\<close>, which panic outside the slice.\<close>

definition sliceOf :: "rune list \<Rightarrow> int \<Rightarrow> int \<Rightarrow> rune list option" where
  "sliceOf rs a b =
     (if 0 \<le> a \<and> a \<le> b \<and> b \<le> int (length rs) then Some (take (nat b - nat a) (drop (nat a) rs))
      else None)"

definition runeIndex :: "rune list \<Rightarrow> int \<Rightarrow> rune option" where
  "runeIndex rs i = (if 0 \<le> i \<and> i < int (length rs) then Some (rs ! nat i) else None)"

text \<open>The loop \<open>for i := a; i < b; i++\<close> that records \<open>runes[i]\<close> at column \<open>i\<close> of a line.\<close>

fun entriesOf :: "int \<Rightarrow> rune list \<Rightarrow> int list \<Rightarrow> opEntry list option" where
  "entriesOf line rs [] = Some []"
| "entriesOf line rs (i # is) =
     (case runeIndex rs i of
        None \<Rightarrow> None
      | Some ru \<Rightarrow>
          (case entriesOf line rs is of
             None \<Rightarrow> None
           | Some es \<Rightarrow>
               Some (\<lparr>insertLine = line, insertCol = i, delLine = 0, delCol = 0, opRune = ru\<rparr> # es)))"

text \<open>The loop \<open>for i := hi; i >= lo; i--\<close> that calls \<open>Delete(line, i + 1)\<close>.\<close>

definition deleteColumns :: "int \<Rightarrow> int \<Rightarrow> int \<Rightarrow> Editor \<Rightarrow> Editor option" where
  "deleteColumns line hi lo e = forEach (\<lambda>i. bufDelete line (i + 1)) (rev [lo..hi]) e"

definition getSelectedText :: "Editor \<Rightarrow> nat list option" where
  "getSelectedText e =
     (if \<not> selectionActive e then Some []
      else
        (case getSelectionCoords e of (startY, startX, endY, endX) \<Rightarrow>
           if startY = endY then
             (case lineRunes e startY of
                None \<Rightarrow> None
              | Some rs \<Rightarrow>
                  (let endX1 = (if endX > int (length rs) then int (length rs) else endX);
                       startX1 = (if startX > int (length rs) then int (length rs) else startX)
                   in map_option runesToString (sliceOf rs startX1 endX1)))
           else
             (case lineRunes e startY of
                None \<Rightarrow> None
              | Some firstRunes \<Rightarrow>
                  (case (if startX < int (length firstRunes)
                         then map_option runesToString (sliceOf firstRunes startX (int (length firstRunes)))
                         else Some []) of
                     None \<Rightarrow> None
                   | Some first \<Rightarrow>
                       (case forEach (\<lambda>y acc. map_option (\<lambda>l. acc @ l @ [10]) (GetLine (buffer e) y))
                               [startY + 1..endY - 1] (first @ [10]) of
                          None \<Rightarrow> None
                        | Some middle \<Rightarrow>
                            (case lineRunes e endY of
                               None \<Rightarrow> None
                             | Some lastRunes \<Rightarrow>
                                 (let endX1 = (if endX > int (length lastRunes)
                                               then int (length lastRunes) else endX)
                                  in map_option (\<lambda>t. middle @ runesToString t)
                                       (sliceOf lastRunes 0 endX1))))))))"

text \<open>
  \<open>deleteSelectedText\<close> first records what it is about to delete, reading the buffer,
  and then deletes from the end of the selection backwards.
\<close>

definition selectionEntries :: "Editor \<Rightarrow> int \<Rightarrow> int \<Rightarrow> int \<Rightarrow> int \<Rightarrow> opEntry list option" where
  "selectionEntries e startY startX endY endX =
     (case lineRunes e startY of
        None \<Rightarrow> None
      | Some firstRunes \<Rightarrow>
          (case entriesOf startY firstRunes [startX..int (length firstRunes) - 1] of
             None \<Rightarrow> None
           | Some es0 \<Rightarrow>
               (case forEach
                       (\<lambda>y (es, lineOffset).
                          case lineRunes e y of
                            None \<Rightarrow> None
                          | Some rs \<Rightarrow>
                              (case entriesOf (startY + lineOffset) rs [0..int (length rs) - 1] of
                                 None \<Rightarrow> None
                               | Some es1 \<Rightarrow>
                                   Some (es @ es1
                                         @ [\<lparr>insertLine = startY + lineOffset, insertCol = int (length rs),
                                             delLine = 0, delCol = 0, opRune = 10\<rparr>],
                                         lineOffset + 1)))
                       [startY + 1..endY - 1]
                       (es0 @ [\<lparr>insertLine = startY, insertCol = int (length firstRunes),
                                delLine = 0, delCol = 0, opRune = 10\<rparr>], 1) of
                  None \<Rightarrow> None
                | Some (es, lineOffset) \<Rightarrow>
                    (case lineRunes e endY of
                       None \<Rightarrow> None
                     | Some lastRunes \<Rightarrow>
                         (let actualEndX = min endX (int (length lastRunes))
                          in map_option (\<lambda>es2. es @ es2)
                               (entriesOf (startY + lineOffset) lastRunes [0..actualEndX - 1]))))))"

definition deleteSelectedText :: "Editor \<Rightarrow> Editor option" where
  "deleteSelectedText e0 =
     (if \<not> selectionActive e0 then Some e0
      else
        (case getSelectionCoords e0 of (startY, startX, endY, endX) \<Rightarrow>
           (let e = flushTypingAndBackspaceIfNeeded e0 in
            case
              (if startY = endY then
                 (case lineRunes e startY of
                    None \<Rightarrow> None
                  | Some rs \<Rightarrow>
                      (let actualEndX = min endX (int (length rs)) in
                       case entriesOf startY rs [startX..actualEndX - 1] of
                         None \<Rightarrow> None
                       | Some entries \<Rightarrow>
                           map_option (\<lambda>e1. (entries, e1)) (deleteColumns startY (actualEndX - 1) startX e)))
               else
                 (case selectionEntries e startY startX endY endX of
                    None \<Rightarrow> None
                  | Some entries \<Rightarrow>
                      (case lineRunes e startY of
                         None \<Rightarrow> None
                       | Some firstRunes \<Rightarrow>
                           (case lineRunes e endY of
                              None \<Rightarrow> None
                            | Some lastRunes \<Rightarrow>
                                (let actualEndX = min endX (int (length lastRunes)) in
                                 case deleteColumns endY (actualEndX - 1) 0 e of
                                   None \<Rightarrow> None
                                 | Some e1 \<Rightarrow>
                                     (case forEach
                                             (\<lambda>y ea.
                                                case bufDelete (y + 1) 0 ea of
                                                  None \<Rightarrow> None
                                                | Some eb \<Rightarrow>
                                                    (case lineRunes eb y of
                                                       None \<Rightarrow> None
                                                     | Some rs \<Rightarrow>
                                                         deleteColumns y (int (length rs) - 1) 0 eb))
                                             (rev [startY + 1..endY - 1]) e1 of
                                        None \<Rightarrow> None
                                      | Some e2 \<Rightarrow>
                                          (case bufDelete (startY + 1) 0 e2 of
                                             None \<Rightarrow> None
                                           | Some e3 \<Rightarrow>
                                               map_option (\<lambda>e4. (entries, e4))
                                                 (deleteColumns startY (int (length firstRunes) - 1)
                                                    startX e3))))))))
            of
              None \<Rightarrow> None
            | Some (entries, e5) \<Rightarrow>
                Some ((pushUndoDeleteBlock entries False e5)
                        \<lparr>cursorY := startY, cursorX := startX, selectionActive := False\<rparr>))))"

definition deleteCurrentLine :: "Editor \<Rightarrow> Editor option" where
  "deleteCurrentLine e0 =
     (let e = flushTypingAndBackspaceIfNeeded e0;
          lineIdx = cursorY e
      in case lineRunes e lineIdx of
           None \<Rightarrow> None
         | Some rs \<Rightarrow>
             (case entriesOf lineIdx rs [0..int (length rs) - 1] of
                None \<Rightarrow> None
              | Some es \<Rightarrow>
                  (let entries =
                         (if cursorY e < LineCount (buffer e) - 1
                          then es @ [\<lparr>insertLine = lineIdx, insertCol = int (length rs),
                                      delLine = 0, delCol = 0, opRune = 10\<rparr>]
                          else es)
                   in case deleteColumns lineIdx (int (length rs) - 1) 0 e of
                        None \<Rightarrow> None
                      | Some e1 \<Rightarrow>
                          (case (if cursorY e1 < LineCount (buffer e1) - 1
                                 then bufDelete (cursorY e1 + 1) 0 e1 else Some e1) of
                             None \<Rightarrow> None
                           | Some e2 \<Rightarrow>
                               (let e3 = (pushUndoDeleteBlock entries False e2)\<lparr>cursorX := 0\<rparr> in
                                if cursorY e3 \<ge> LineCount (buffer e3) \<and> cursorY e3 > 0 then
                                  (case lineRunes (e3\<lparr>cursorY := cursorY e3 - 1\<rparr>) (cursorY e3 - 1) of
                                     None \<Rightarrow> None
                                   | Some prev \<Rightarrow>
                                       Some (e3\<lparr>cursorY := cursorY e3 - 1, cursorX := int (length prev)\<rparr>))
                                else Some e3)))))"

text \<open>
  \<open>cutToClipboard\<close>.  The text it hands to the system clipboard is not part of the
  editor's state; the call may fail.
\<close>

definition cutToClipboard :: "world \<Rightarrow> Editor \<Rightarrow> Editor option" where
  "cutToClipboard wd e0 =
     (let e = flushTypingAndBackspaceIfNeeded e0 in
      case getSelectedText e of
        None \<Rightarrow> None
      | Some selected \<Rightarrow>
          (case (if selected = [] then
                   (case GetLine (buffer e) (cursorY e) of
                      None \<Rightarrow> None
                    | Some l \<Rightarrow> map_option endUndoGroup (deleteCurrentLine (beginUndoGroup e)))
                 else if selectionActive e then
                   map_option endUndoGroup (deleteSelectedText (beginUndoGroup e))
                 else Some e) of
             None \<Rightarrow> None
           | Some e1 \<Rightarrow>
               (if \<not> clipboardOK wd then Some (e1\<lparr>statusMessage := CutFailedMessage\<rparr>)
                else Some (e1\<lparr>statusMessage := Text ''Cut to clipboard'', dirty := True\<rparr>))))"

definition getRuneAt :: "Editor \<Rightarrow> int \<Rightarrow> int \<Rightarrow> rune option" where
  "getRuneAt e y x =
     (if y \<ge> LineCount (buffer e) then Some 0
      else
        (case lineRunes e y of
           None \<Rightarrow> None
         | Some rs \<Rightarrow> (if x \<ge> int (length rs) then Some 0 else runeIndex rs x)))"

subsection \<open>Enter, paste, backspace and typing (editor/input.go, editor/render.go)\<close>

definition getMultiCursorRange :: "Editor \<Rightarrow> int \<times> int" where
  "getMultiCursorRange e =
     (if extraCursorHeight e = 0 then (cursorY e, cursorY e)
      else if extraCursorHeight e > 0 then (cursorY e, cursorY e + extraCursorHeight e)
      else (cursorY e + extraCursorHeight e, cursorY e))"

text \<open>
  The loop of Enter and of paste: each code point is inserted at the cursor, the cursor
  moves behind it, and the entry records where it went in and where the cursor then
  stood.  The loop ends with the entries, or with the error of the \<open>Insert\<close> that failed.
\<close>

fun insertAtCursor :: "rune list \<Rightarrow> opEntry list \<Rightarrow> Editor \<Rightarrow> (Editor \<times> (error + opEntry list)) option" where
  "insertAtCursor [] entries e = Some (e, Inr entries)"
| "insertAtCursor (char # chars) entries e =
     (case Insert (buffer e) (cursorY e) (cursorX e) char of
        None \<Rightarrow> None
      | Some (b, Some err) \<Rightarrow> Some (e\<lparr>buffer := b\<rparr>, Inl err)
      | Some (b, None) \<Rightarrow>
          (let e1 = (if char = 10 then e\<lparr>buffer := b, cursorY := cursorY e + 1, cursorX := 0\<rparr>
                     else e\<lparr>buffer := b, cursorX := cursorX e + 1\<rparr>)
           in insertAtCursor chars
                (entries @ [\<lparr>insertLine = cursorY e, insertCol = cursorX e,
                             delLine = cursorY e1, delCol = cursorX e1, opRune = char\<rparr>]) e1))"

definition handleEnter :: "world \<Rightarrow> Editor \<Rightarrow> Editor option" where
  "handleEnter wd e0 =
     (let e = (flushTypingGroup (flushDeleteGroup (flushBackspaceGroup e0)))\<lparr>extraCursorHeight := 0\<rparr> in
      case lineRunes e (cursorY e) of
        None \<Rightarrow> None
      | Some currentLine \<Rightarrow>
          (let indent = takeWhile (\<lambda>char. char = 32 \<or> char = 9) currentLine;
               textToInsert = 10 # indent
           in case insertAtCursor (stringToRunes (runesToString textToInsert)) [] e of
                None \<Rightarrow> None
              | Some (e1, Inl err) \<Rightarrow> Some (e1\<lparr>statusMessage := InsertErrorMessage err\<rparr>)
              | Some (e1, Inr entries) \<Rightarrow>
                  Some ((pushUndoInsertBlock entries e1)\<lparr>lastTypeTime := now wd, dirty := True\<rparr>)))"

text \<open>
  \<open>pasteFromClipboard\<close>: \<open>strings.ReplaceAll\<close> turns every \<open>\r\n\<close> and then every
  \<open>\r\<close> into \<open>\n\<close>; the whole text becomes one action of a group of its own.
\<close>

fun replaceCRLF :: "nat list \<Rightarrow> nat list" where
  "replaceCRLF [] = []"
| "replaceCRLF [b] = [b]"
| "replaceCRLF (b # b' # bs) =
     (if b = 13 \<and> b' = 10 then 10 # replaceCRLF bs else b # replaceCRLF (b' # bs))"

definition replaceCR :: "nat list \<Rightarrow> nat list" where
  "replaceCR bs = map (\<lambda>b. if b = 13 then 10 else b) bs"

definition pasteFromClipboard :: "world \<Rightarrow> Editor \<Rightarrow> (Editor \<times> error option) option" where
  "pasteFromClipboard wd e0 =
     (case clipboardText wd of
        None \<Rightarrow> Some (e0\<lparr>statusMessage := PasteFailedMessage\<rparr>, None)
      | Some clip \<Rightarrow>
          (if clip = [] then Some (e0\<lparr>statusMessage := Text ''Clipboard is empty''\<rparr>, None)
           else
             (let e = beginUndoGroup (flushTypingAndBackspaceIfNeeded e0) in
              case insertAtCursor (stringToRunes (replaceCR (replaceCRLF clip))) [] e of
                None \<Rightarrow> None
              | Some (e1, Inl err) \<Rightarrow>
                  Some (endUndoGroup (e1\<lparr>statusMessage := PasteErrorMessage err\<rparr>), Some err)
              | Some (e1, Inr entries) \<Rightarrow>
                  Some (endUndoGroup ((pushUndoInsertBlock entries e1)
                          \<lparr>dirty := True, statusMessage := Text ''Pasted from clipboard''\<rparr>), None))))"

text \<open>One line of the backspace loop, and one line of the typing loop.\<close>

definition backspaceLine :: "int \<Rightarrow> Editor \<Rightarrow> Editor option" where
  "backspaceLine i e =
     (if i \<ge> LineCount (buffer e) then Some e
      else
        (case lineRunes e i of
           None \<Rightarrow> None
         | Some rs \<Rightarrow>
             (let lineLen = int (length rs);
                  targetX = (if cursorX e > lineLen then lineLen else cursorX e)
              in if targetX = 0 \<and> i = 0 then Some e
                 else
                   map_option (\<lambda>e1. e1\<lparr>dirty := True\<rparr>)
                     (if targetX > 0 then
                        (let delIndex = targetX - 1 in
                         case getRuneAt e i delIndex of
                           None \<Rightarrow> None
                         | Some char \<Rightarrow>
                             bufDelete i targetX (pushUndoDeleteIfExternalGrouping i delIndex char e))
                      else if extraCursorHeight e = 0 then
                        (let prevLineIdx = i - 1 in
                         case lineRunes e prevLineIdx of
                           None \<Rightarrow> None
                         | Some prev \<Rightarrow>
                             (case bufDelete i 0
                                     ((pushUndoDeleteIfExternalGrouping prevLineIdx (int (length prev)) 10 e)
                                        \<lparr>cursorY := prevLineIdx\<rparr>) of
                                None \<Rightarrow> None
                              | Some e1 \<Rightarrow>
                                  (if i = cursorY e1 then
                                     (case lineRunes e1 (cursorY e1) of
                                        None \<Rightarrow> None
                                      | Some merged \<Rightarrow> Some (e1\<lparr>cursorX := int (length merged)\<rparr>))
                                   else Some e1)))
                      else Some e))))"

definition handleBackspace :: "Editor \<Rightarrow> Editor option" where
  "handleBackspace e0 =
     (if selectionActive e0 then
        map_option endUndoGroup (deleteSelectedText (beginUndoGroup e0))
      else
        (let e = beginUndoGroup (flushDeleteGroup (flushTypingGroup e0)) in
         case getMultiCursorRange e of (startLine, endLine) \<Rightarrow>
           (case forEach backspaceLine (rev [startLine..endLine]) e of
              None \<Rightarrow> None
            | Some e1 \<Rightarrow>
                Some (endUndoGroup (if cursorX e1 > 0 then e1\<lparr>cursorX := cursorX e1 - 1\<rparr> else e1)))))"

definition typeLine :: "rune \<Rightarrow> int \<Rightarrow> Editor \<Rightarrow> Editor option" where
  "typeLine ru i e =
     (if i \<ge> LineCount (buffer e) then Some e
      else
        (case lineRunes e i of
           None \<Rightarrow> None
         | Some rs \<Rightarrow>
             (let targetX = (if cursorX e > int (length rs) then int (length rs) else cursorX e) in
              case Insert (buffer e) i targetX ru of
                None \<Rightarrow> None
              | Some (b, Some err) \<Rightarrow> Some (e\<lparr>buffer := b\<rparr>)
              | Some (b, None) \<Rightarrow>
                  Some (pushUndoInsertBlock
                          [\<lparr>insertLine = i, insertCol = targetX, delLine = i, delCol = targetX,
                            opRune = ru\<rparr>]
                          (e\<lparr>buffer := b\<rparr>)))))"

definition handleTyping :: "world \<Rightarrow> rune \<Rightarrow> Editor \<Rightarrow> Editor option" where
  "handleTyping wd ru e0 =
     (let e = beginUndoGroup (flushTypingGroup (flushDeleteGroup (flushBackspaceGroup e0))) in
      case getMultiCursorRange e of (startLine, endLine) \<Rightarrow>
        (case forEach (typeLine ru) [startLine..endLine] e of
           None \<Rightarrow> None
         | Some e1 \<Rightarrow>
             Some (endUndoGroup (e1\<lparr>cursorX := cursorX e1 + 1, lastTypeTime := now wd, dirty := True\<rparr>))))"

text \<open>A handler that returns nil.\<close>

definition returnsNil :: "Editor option \<Rightarrow> (Editor \<times> error option) option" where
  "returnsNil res = map_option (\<lambda>e. (e, None)) res"

subsection \<open>Inserting a string, duplicating a line, the case of a word\<close>

text \<open>
  \<open>insertString\<close> (its Go source stands behind the text of \<open>editor/UNDO_ALGORITHM.md\<close>)
  drops the error of every \<open>Insert\<close> and moves the cursor all the same; it opens a group
  of its own when none is open.  \<open>clampCursorX\<close> brings the cursor back into its line.
\<close>

fun insertRunes :: "rune list \<Rightarrow> opEntry list \<Rightarrow> Editor \<Rightarrow> (Editor \<times> opEntry list) option" where
  "insertRunes [] entries e = Some (e, entries)"
| "insertRunes (ru # rs) entries e =
     (case bufInsert (cursorY e) (cursorX e) ru e of
        None \<Rightarrow> None
      | Some e1 \<Rightarrow>
          (let e2 = (if ru = 10 then e1\<lparr>cursorY := cursorY e1 + 1, cursorX := 0\<rparr>
                     else e1\<lparr>cursorX := cursorX e1 + 1\<rparr>)
           in insertRunes rs
                (entries @ [\<lparr>insertLine = cursorY e, insertCol = cursorX e,
                             delLine = cursorY e2, delCol = cursorX e2, opRune = ru\<rparr>]) e2))"

definition insertString :: "nat list \<Rightarrow> Editor \<Rightarrow> Editor option" where
  "insertString s e =
     (let rs = stringToRunes s in
      if length rs = 0 then Some e
      else
        (let own = \<not> undoGrouping e;
             e1 = (if own then beginUndoGroup e else e)
         in case insertRunes rs [] e1 of
              None \<Rightarrow> None
            | Some (e2, entries) \<Rightarrow>
                (let e3 = (pushUndoInsertBlock entries e2)\<lparr>dirty := True\<rparr>
                 in Some (if own then endUndoGroup e3 else e3))))"

definition clampCursorX :: "Editor \<Rightarrow> Editor option" where
  "clampCursorX e =
     (case (if cursorY e < LineCount (buffer e)
            then map_option (\<lambda>rs. int (length rs)) (lineRunes e (cursorY e)) else Some 0) of
        None \<Rightarrow> None
      | Some lineLen \<Rightarrow> Some (if cursorX e > lineLen then e\<lparr>cursorX := lineLen\<rparr> else e))"

definition duplicateLine :: "Editor \<Rightarrow> Editor option" where
  "duplicateLine e =
     (if LineCount (buffer e) = 0 then Some e
      else
        (let origX = cursorX e; origY = cursorY e in
         case GetLine (buffer e) origY of
           None \<Rightarrow> None
         | Some lineContent \<Rightarrow>
             (let e1 = beginUndoGroup e in
              case (if origY = LineCount (buffer e1) - 1
                    then insertString (10 # lineContent)
                           (e1\<lparr>cursorX := int (length (stringToRunes lineContent))\<rparr>)
                    else insertString (lineContent @ [10])
                           (e1\<lparr>cursorY := origY + 1, cursorX := 0\<rparr>)) of
                None \<Rightarrow> None
              | Some e2 \<Rightarrow>
                  (case clampCursorX (e2\<lparr>cursorY := origY, cursorX := origX\<rparr>) of
                     None \<Rightarrow> None
                   | Some e3 \<Rightarrow> Some ((endUndoGroup e3)\<lparr>dirty := True\<rparr>)))))"

text \<open>
  \<open>strings.ToUpper\<close> and \<open>strings.ToLower\<close> map \<open>unicode.ToUpper\<close> and
  \<open>unicode.ToLower\<close> over the code points of a string.
\<close>

definition isWordChar :: "world \<Rightarrow> rune \<Rightarrow> bool" where
  "isWordChar wd ru = (isLetter wd ru \<or> isNumber wd ru \<or> ru = 95)"

definition isPunctChar :: "world \<Rightarrow> rune \<Rightarrow> bool" where
  "isPunctChar wd ru = (\<not> isWordChar wd ru \<and> \<not> isSpace wd ru)"

definition stringsToUpper :: "world \<Rightarrow> nat list \<Rightarrow> nat list" where
  "stringsToUpper wd s = runesToString (map (toUpper wd) (stringToRunes s))"

definition stringsToLower :: "world \<Rightarrow> nat list \<Rightarrow> nat list" where
  "stringsToLower wd s = runesToString (map (toLower wd) (stringToRunes s))"

datatype caseType = caseLower | caseTitle | caseUpper | caseMixed

definition detectCase :: "world \<Rightarrow> nat list \<Rightarrow> caseType" where
  "detectCase wd s =
     (if s = [] then caseLower
      else if s = stringsToLower wd s then caseLower
      else if s = stringsToUpper wd s then caseUpper
      else
        (let rs = stringToRunes s in
         if isUpper wd (hd rs) \<and> length rs > 1
            \<and> runesToString (tl rs) = stringsToLower wd (runesToString (tl rs))
         then caseTitle else caseMixed))"

definition toTitleCase :: "world \<Rightarrow> nat list \<Rightarrow> nat list" where
  "toTitleCase wd s =
     (if s = [] then []
      else (let rs = stringToRunes s
            in runesToString (toUpper wd (hd rs) # map (toLower wd) (tl rs))))"

definition toggleCaseAtCursor :: "world \<Rightarrow> Editor \<Rightarrow> Editor option" where
  "toggleCaseAtCursor wd e =
     (if LineCount (buffer e) = 0 then Some e
      else
        (case lineRunes e (cursorY e) of
           None \<Rightarrow> None
         | Some rs \<Rightarrow>
             (if length rs = 0 then Some e
              else
                (let originalCursorX = cursorX e;
                     idx0 = (if cursorX e \<ge> int (length rs) then int (length rs) - 1 else cursorX e)
                 in case runeIndex rs idx0 of
                      None \<Rightarrow> None
                    | Some r0 \<Rightarrow>
                        (if \<not> isWordChar wd r0
                            \<and> \<not> (idx0 > 0 \<and> isWordChar wd (rs ! nat (idx0 - 1)))
                         then Some e
                         else
                           (let idx = (if \<not> isWordChar wd r0 then idx0 - 1 else idx0);
                                start = idx - int (length (takeWhile (isWordChar wd) (rev (take (nat idx) rs))));
                                end = idx + int (length (takeWhile (isWordChar wd) (drop (nat idx) rs)));
                                word = runesToString (take (nat end - nat start) (drop (nat start) rs))
                            in if word = [] then Some e
                               else
                                 (let nextWord =
                                        (case detectCase wd word of
                                           caseLower \<Rightarrow> toTitleCase wd word
                                         | caseTitle \<Rightarrow> stringsToUpper wd word
                                         | caseUpper \<Rightarrow> stringsToLower wd word
                                         | caseMixed \<Rightarrow> stringsToLower wd word);
                                      e1 = (beginUndoGroup e)
                                             \<lparr>selectionActive := True, selectionAnchorY := cursorY e,
                                              selectionAnchorX := start, cursorX := end\<rparr>
                                  in case deleteSelectedText e1 of
                                       None \<Rightarrow> None
                                     | Some e2 \<Rightarrow>
                                         (case insertString nextWord e2 of
                                            None \<Rightarrow> None
                                          | Some e3 \<Rightarrow>
                                              (let e4 = e3\<lparr>selectionActive := False\<rparr> in
                                               case lineRunes e4 (cursorY e4) of
                                                 None \<Rightarrow> None
                                               | Some l \<Rightarrow>
                                                   (let newLineLen = int (length l)
                                                    in Some ((endUndoGroup
                                                          (e4\<lparr>cursorX := (if originalCursorX > newLineLen
                                                                           then newLineLen
                                                                           else originalCursorX)\<rparr>))
                                                          \<lparr>dirty := True\<rparr>)))))))))))"

subsection \<open>Moving and deleting by words, forward delete (editor/main.go, editor/input.go)\<close>

text \<open>
  The loop \<open>for x >= 0 && p(runes[x]) { x-- }\<close>: it panics at once when \<open>x\<close> lies beyond
  the line, and ends at \<open>-1\<close> when every code point down to the first satisfies \<open>p\<close>.
\<close>

definition backWhile :: "(rune \<Rightarrow> bool) \<Rightarrow> rune list \<Rightarrow> int \<Rightarrow> int option" where
  "backWhile p rs x =
     (if x < 0 then Some x
      else if x \<ge> int (length rs) then None
      else Some (x - int (length (takeWhile p (rev (take (nat x + 1) rs))))))"

text \<open>The loop \<open>for x < lineLen && p(runes[x]) { x++ }\<close>, entered with \<open>0 \<le> x\<close>.\<close>

definition forthWhile :: "(rune \<Rightarrow> bool) \<Rightarrow> rune list \<Rightarrow> int \<Rightarrow> int" where
  "forthWhile p rs x = x + int (length (takeWhile p (drop (nat x) rs)))"

definition setSelecting :: "bool \<Rightarrow> Editor \<Rightarrow> Editor" where
  "setSelecting isSelecting e =
     (if isSelecting \<and> \<not> selectionActive e
      then e\<lparr>selectionActive := True, selectionAnchorX := cursorX e, selectionAnchorY := cursorY e\<rparr>
      else if \<not> isSelecting then e\<lparr>selectionActive := False\<rparr>
      else e)"

definition wordRightFrom :: "world \<Rightarrow> rune list \<Rightarrow> int \<Rightarrow> Editor \<Rightarrow> Editor option" where
  "wordRightFrom wd rs x e =
     (if x < int (length rs) then
        (case runeIndex rs x of
           None \<Rightarrow> None
         | Some ru \<Rightarrow>
             (let x1 = (if isWordChar wd ru then forthWhile (isWordChar wd) rs x
                        else if isPunctChar wd ru then forthWhile (isPunctChar wd) rs x
                        else x)
              in Some (e\<lparr>cursorX := forthWhile (isSpace wd) rs x1\<rparr>)))
      else Some (e\<lparr>cursorX := x\<rparr>))"

definition moveWordRight :: "world \<Rightarrow> bool \<Rightarrow> Editor \<Rightarrow> Editor option" where
  "moveWordRight wd isSelecting e0 =
     (let e = setSelecting isSelecting e0 in
      case lineRunes e (cursorY e) of
        None \<Rightarrow> None
      | Some rs \<Rightarrow>
          (if cursorX e = int (length rs) then
             (if cursorY e < LineCount (buffer e) - 1 then
                (let e1 = e\<lparr>cursorY := cursorY e + 1, cursorX := 0\<rparr> in
                 case lineRunes e1 (cursorY e1) of
                   None \<Rightarrow> None
                 | Some rs1 \<Rightarrow> wordRightFrom wd rs1 0 e1)
              else Some e)
           else wordRightFrom wd rs (cursorX e) e))"

definition moveWordLeft :: "world \<Rightarrow> bool \<Rightarrow> Editor \<Rightarrow> Editor option" where
  "moveWordLeft wd isSelecting e0 =
     (let e = setSelecting isSelecting e0 in
      if cursorX e = 0 then
        (if cursorY e > 0 then
           (let e1 = e\<lparr>cursorY := cursorY e - 1\<rparr> in
            case lineRunes e1 (cursorY e1) of
              None \<Rightarrow> None
            | Some prev \<Rightarrow> Some (e1\<lparr>cursorX := int (length prev)\<rparr>))
         else Some e)
      else
        (case lineRunes e (cursorY e) of
           None \<Rightarrow> None
         | Some rs \<Rightarrow>
             (case backWhile (isSpace wd) rs (cursorX e - 1) of
                None \<Rightarrow> None
              | Some x \<Rightarrow>
                  (if x < 0 then Some (e\<lparr>cursorX := 0\<rparr>)
                   else
                     (case (if isWordChar wd (rs ! nat x) then backWhile (isWordChar wd) rs x
                            else if isPunctChar wd (rs ! nat x) then backWhile (isPunctChar wd) rs x
                            else Some x) of
                        None \<Rightarrow> None
                      | Some x1 \<Rightarrow> Some (e\<lparr>cursorX := x1 + 1\<rparr>))))))"

definition deleteSelection :: "Editor \<Rightarrow> Editor option" where
  "deleteSelection e = map_option endUndoGroup (deleteSelectedText (beginUndoGroup e))"

definition handleDeleteWordLeft :: "world \<Rightarrow> Editor \<Rightarrow> Editor option" where
  "handleDeleteWordLeft wd e0 =
     (let e = flushEditGroups e0 in
      if selectionActive e then deleteSelection e
      else
        (let endY = cursorY e; endX = cursorX e in
         case moveWordLeft wd False e of
           None \<Rightarrow> None
         | Some e1 \<Rightarrow>
             (let startY = cursorY e1; startX = cursorX e1 in
              if startY = endY \<and> startX = endX then Some e1
              else deleteSelection
                     (e1\<lparr>cursorY := endY, cursorX := endX, selectionAnchorY := startY,
                         selectionAnchorX := startX, selectionActive := True\<rparr>))))"

definition handleDeleteWordRight :: "world \<Rightarrow> Editor \<Rightarrow> Editor option" where
  "handleDeleteWordRight wd e0 =
     (let e = flushEditGroups e0 in
      if selectionActive e then deleteSelection e
      else
        (let startY = cursorY e; startX = cursorX e in
         case moveWordRight wd False e of
           None \<Rightarrow> None
         | Some e1 \<Rightarrow>
             (let endY = cursorY e1; endX = cursorX e1 in
              if startY = endY \<and> startX = endX then Some e1
              else deleteSelection
                     (e1\<lparr>selectionAnchorY := startY, selectionAnchorX := startX,
                         selectionActive := True, cursorY := endY, cursorX := endX\<rparr>))))"


subsection \<open>Escape sequences (editor/main.go)\<close>




subsection \<open>The key handler and the input loop (editor/input.go)\<close>

text \<open>
  \<open>handleKey\<close>: the switch that ends a selection, the switch that clears the redo stack,
  and the dispatch.  The command keys are those whose handlers are left to the world.
\<close>

definition commandKey :: "rune \<Rightarrow> bool" where
  "commandKey k = (k = 0x01 \<or> k = 0x11 \<or> k = 0x13 \<or> k = 0x05 \<or> k = 0x03 \<or> k = 0x0c
                   \<or> k = 0x14 \<or> k = 0x06 \<or> k = 0x08 \<or> k = 0x0f)"

definition keepsSelection :: "rune \<Rightarrow> bool" where
  "keepsSelection k = (k = 0x1b \<or> k = 0x03 \<or> k = 0x18 \<or> k = 0x01 \<or> k = 0x7f)"

definition keepsRedoStack :: "rune \<Rightarrow> bool" where
  "keepsRedoStack k = (k = 0x15 \<or> k = 0x19 \<or> k = 0x1b \<or> k = 0x03 \<or> k = 0x18 \<or> k = 0x01)"

definition dispatchKey :: "world \<Rightarrow> rune \<Rightarrow> Editor \<Rightarrow> (Editor \<times> error option) option" where
  "dispatchKey wd k e =
     (if commandKey k then otherKeys wd k (flushEditGroups e)
      else if k = 0x04 then returnsNil (duplicateLine ((flushEditGroups e)\<lparr>extraCursorHeight := 0\<rparr>))
      else if k = 0x0b then returnsNil (toggleCaseAtCursor wd ((flushEditGroups e)\<lparr>extraCursorHeight := 0\<rparr>))
      else if k = 0x17 then returnsNil (handleDeleteWordLeft wd e)
      else if k = 0x15 then returnsNil (undo (flushEditGroups e))
      else if k = 0x19 then returnsNil (redo (flushEditGroups e))
      else if k = 0x18 then returnsNil (cutToClipboard wd (flushEditGroups e))
      else if k = 0x16 then pasteFromClipboard wd (flushEditGroups e)
      else if k = 0x0d then returnsNil (handleEnter wd e)
      else if k = 0x7f then returnsNil (handleBackspace e)
      else returnsNil (handleTyping wd k e))"

definition handleKey :: "world \<Rightarrow> rune \<Rightarrow> Editor \<Rightarrow> (Editor \<times> error option) option" where
  "handleKey wd k e =
     (let e1 = (if keepsSelection k then e else e\<lparr>selectionActive := False\<rparr>);
          e2 = (if keepsRedoStack k then e1 else e1\<lparr>redoStack := []\<rparr>)
      in dispatchKey wd k e2)"



text \<open>
  A run of keys, each with the clock at the moment it is handled; the run ends at the
  first key whose handler returns an error, as the editor's main loop does.  \<open>handleKeys\<close>
  hands every key to \<open>handleKey\<close>; \<open>processInputs\<close> goes through \<open>processInput\<close>, each
  key with the bytes that follow it when it is an escape byte.
\<close>

fun handleKeys :: "world \<Rightarrow> (rune \<times> int) list \<Rightarrow> Editor \<Rightarrow> (Editor \<times> error option) option" where
  "handleKeys wd [] e = Some (e, None)"
| "handleKeys wd ((k, t) # ks) e =
     (case handleKey (wd\<lparr>now := t\<rparr>) k e of
        None \<Rightarrow> None
      | Some (e1, Some err) \<Rightarrow> Some (e1, Some err)
      | Some (e1, None) \<Rightarrow> handleKeys wd ks e1)"


text \<open>
  A world for the runs below: the handlers that are not modelled do nothing and return
  nil, the clipboard cannot be read and setting it succeeds, standard input is a terminal
  device, and the tables of \<open>unicode\<close> are cut down to ASCII.
\<close>

definition quietWorld :: world where
  "quietWorld =
     \<lparr>otherKeys = (\<lambda>k e. Some (e, None)), promptKeys = (\<lambda>p k e. Some (e, None)),
      promptEscape = (\<lambda>cmd params e. Some e), navigation = (\<lambda>cmd params e. Some e),
      cancelMode = (\<lambda>e. Some e),
      clipboardText = None, clipboardOK = True, now = 0, stdinIsFile = True, pending = [],
      isLetter = (\<lambda>ru. (65 \<le> ru \<and> ru \<le> 90) \<or> (97 \<le> ru \<and> ru \<le> 122)),
      isNumber = (\<lambda>ru. 48 \<le> ru \<and> ru \<le> 57),
      isSpace = (\<lambda>ru. ru = 32 \<or> (9 \<le> ru \<and> ru \<le> 13)),
      isUpper = (\<lambda>ru. 65 \<le> ru \<and> ru \<le> 90),
      toUpper = (\<lambda>ru. if 97 \<le> ru \<and> ru \<le> 122 then ru - 32 else ru),
      toLower = (\<lambda>ru. if 65 \<le> ru \<and> ru \<le> 90 then ru + 32 else ru)\<rparr>"

section \<open>UTF-8: decoding inverts encoding\<close>

lemma mod_help: "n < b \<Longrightarrow> (c * b + n) mod b = (n::nat)"
  by simp

lemma mod_help32: "n \<le> 31 \<Longrightarrow> (192 + n) mod 32 = (n::nat)"
  using mod_help [of n 32 6] by simp
lemma mod_help16: "n \<le> 15 \<Longrightarrow> (224 + n) mod 16 = (n::nat)"
  using mod_help [of n 16 14] by simp
lemma mod_help8: "n \<le> 7 \<Longrightarrow> (240 + n) mod 8 = (n::nat)"
  using mod_help [of n 8 30] by simp
lemma mod_help64: "n \<le> 63 \<Longrightarrow> (128 + n) mod 64 = (n::nat)"
  using mod_help [of n 64 2] by simp

lemma isCont_128: "n \<le> 63 \<Longrightarrow> isCont (128 + n)"
  by (simp add: isCont_def)

lemma decode2_eq:
  assumes "isCont b1" "127 < int (b0 mod 32) * 64 + int (b1 mod 64)"
  shows "decode2 b0 (b1 # bs) = (int (b0 mod 32) * 64 + int (b1 mod 64), 2)"
  unfolding decode2_def Let_def using assms by (simp only: list.case if_True)

lemma decode3_eq:
  assumes "isCont b1" "isCont b2"
    and "2047 < int (b0 mod 16) * 4096 + int (b1 mod 64) * 64 + int (b2 mod 64)
         \<and> \<not> (55296 \<le> int (b0 mod 16) * 4096 + int (b1 mod 64) * 64 + int (b2 mod 64)
              \<and> int (b0 mod 16) * 4096 + int (b1 mod 64) * 64 + int (b2 mod 64) \<le> 57343)"
  shows "decode3 b0 (b1 # b2 # bs)
     = (int (b0 mod 16) * 4096 + int (b1 mod 64) * 64 + int (b2 mod 64), 3)"
  unfolding decode3_def Let_def using assms by (simp only: list.case if_True simp_thms)

lemma decode4_eq:
  assumes "isCont b1" "isCont b2" "isCont b3"
    and "65535 < int (b0 mod 8) * 262144 + int (b1 mod 64) * 4096 + int (b2 mod 64) * 64 + int (b3 mod 64)
         \<and> int (b0 mod 8) * 262144 + int (b1 mod 64) * 4096 + int (b2 mod 64) * 64 + int (b3 mod 64)
             \<le> 1114111"
  shows "decode4 b0 (b1 # b2 # b3 # bs)
     = (int (b0 mod 8) * 262144 + int (b1 mod 64) * 4096 + int (b2 mod 64) * 64 + int (b3 mod 64), 4)"
  unfolding decode4_def Let_def using assms by (simp only: list.case if_True simp_thms)

lemma decodeRune_2: "192 \<le> b0 \<Longrightarrow> b0 < 224 \<Longrightarrow> decodeRune (b0 # bs) = decode2 b0 bs"
  by simp
lemma decodeRune_3: "224 \<le> b0 \<Longrightarrow> b0 < 240 \<Longrightarrow> decodeRune (b0 # bs) = decode3 b0 bs"
  by simp
lemma decodeRune_4: "240 \<le> b0 \<Longrightarrow> b0 < 248 \<Longrightarrow> decodeRune (b0 # bs) = decode4 b0 bs"
  by simp

lemma rt2:
  assumes "2 \<le> qi" "qi \<le> 31" "0 \<le> mi" "mi \<le> 63"
  shows "decodeRune ((192 + nat qi) # (128 + nat mi) # bs) = (qi * 64 + mi, 2)"
proof -
  have 1: "decodeRune ((192 + nat qi) # (128 + nat mi) # bs)
      = decode2 (192 + nat qi) ((128 + nat mi) # bs)"
    by (rule decodeRune_2) (use assms in linarith)+
  have h32: "(192 + nat qi) mod 32 = nat qi" by (rule mod_help32) (use assms in linarith)
  have h64: "(128 + nat mi) mod 64 = nat mi" by (rule mod_help64) (use assms in linarith)
  have c: "isCont (128 + nat mi)" by (rule isCont_128) (use assms in linarith)
  have val: "int ((192 + nat qi) mod 32) * 64 + int ((128 + nat mi) mod 64) = qi * 64 + mi"
    unfolding h32 h64 using assms by simp
  have gt: "127 < qi * 64 + mi" using assms by linarith
  have "127 < int ((192 + nat qi) mod 32) * 64 + int ((128 + nat mi) mod 64)"
    unfolding val by (rule gt)
  from decode2_eq [OF c this] show ?thesis unfolding 1 val .
qed

lemma rt3:
  assumes "0 \<le> qi" "qi \<le> 15" "0 \<le> mi" "mi \<le> 63" "0 \<le> ki" "ki \<le> 63"
    and "2047 < qi * 4096 + mi * 64 + ki"
    and "\<not> (55296 \<le> qi * 4096 + mi * 64 + ki \<and> qi * 4096 + mi * 64 + ki \<le> 57343)"
  shows "decodeRune ((224 + nat qi) # (128 + nat mi) # (128 + nat ki) # bs)
     = (qi * 4096 + mi * 64 + ki, 3)"
proof -
  have 1: "decodeRune ((224 + nat qi) # (128 + nat mi) # (128 + nat ki) # bs)
      = decode3 (224 + nat qi) ((128 + nat mi) # (128 + nat ki) # bs)"
    by (rule decodeRune_3) (use assms in linarith)+
  have h16: "(224 + nat qi) mod 16 = nat qi" by (rule mod_help16) (use assms in linarith)
  have h64: "(128 + nat mi) mod 64 = nat mi" by (rule mod_help64) (use assms in linarith)
  have k64: "(128 + nat ki) mod 64 = nat ki" by (rule mod_help64) (use assms in linarith)
  have c: "isCont (128 + nat mi)" by (rule isCont_128) (use assms in linarith)
  have c': "isCont (128 + nat ki)" by (rule isCont_128) (use assms in linarith)
  have val: "int ((224 + nat qi) mod 16) * 4096 + int ((128 + nat mi) mod 64) * 64
      + int ((128 + nat ki) mod 64) = qi * 4096 + mi * 64 + ki"
    unfolding h16 h64 k64 using assms by simp
  have "2047 < int ((224 + nat qi) mod 16) * 4096 + int ((128 + nat mi) mod 64) * 64
      + int ((128 + nat ki) mod 64)
    \<and> \<not> (55296 \<le> int ((224 + nat qi) mod 16) * 4096 + int ((128 + nat mi) mod 64) * 64
      + int ((128 + nat ki) mod 64)
      \<and> int ((224 + nat qi) mod 16) * 4096 + int ((128 + nat mi) mod 64) * 64
      + int ((128 + nat ki) mod 64) \<le> 57343)"
    unfolding val using assms(7,8) by blast
  from decode3_eq [OF c c' this] show ?thesis unfolding 1 val .
qed

lemma rt4:
  assumes "0 \<le> qi" "qi \<le> 7" "0 \<le> mi" "mi \<le> 63" "0 \<le> ki" "ki \<le> 63" "0 \<le> ji" "ji \<le> 63"
    and "65535 < qi * 262144 + mi * 4096 + ki * 64 + ji"
    and "qi * 262144 + mi * 4096 + ki * 64 + ji \<le> 1114111"
  shows "decodeRune ((240 + nat qi) # (128 + nat mi) # (128 + nat ki) # (128 + nat ji) # bs)
     = (qi * 262144 + mi * 4096 + ki * 64 + ji, 4)"
proof -
  have 1: "decodeRune ((240 + nat qi) # (128 + nat mi) # (128 + nat ki) # (128 + nat ji) # bs)
      = decode4 (240 + nat qi) ((128 + nat mi) # (128 + nat ki) # (128 + nat ji) # bs)"
    by (rule decodeRune_4) (use assms in linarith)+
  have h8: "(240 + nat qi) mod 8 = nat qi" by (rule mod_help8) (use assms in linarith)
  have h64: "(128 + nat mi) mod 64 = nat mi" by (rule mod_help64) (use assms in linarith)
  have k64: "(128 + nat ki) mod 64 = nat ki" by (rule mod_help64) (use assms in linarith)
  have j64: "(128 + nat ji) mod 64 = nat ji" by (rule mod_help64) (use assms in linarith)
  have c: "isCont (128 + nat mi)" by (rule isCont_128) (use assms in linarith)
  have c': "isCont (128 + nat ki)" by (rule isCont_128) (use assms in linarith)
  have c'': "isCont (128 + nat ji)" by (rule isCont_128) (use assms in linarith)
  have val: "int ((240 + nat qi) mod 8) * 262144 + int ((128 + nat mi) mod 64) * 4096
      + int ((128 + nat ki) mod 64) * 64 + int ((128 + nat ji) mod 64)
      = qi * 262144 + mi * 4096 + ki * 64 + ji"
    unfolding h8 h64 k64 j64 using assms by simp
  have "65535 < int ((240 + nat qi) mod 8) * 262144 + int ((128 + nat mi) mod 64) * 4096
      + int ((128 + nat ki) mod 64) * 64 + int ((128 + nat ji) mod 64)
    \<and> int ((240 + nat qi) mod 8) * 262144 + int ((128 + nat mi) mod 64) * 4096
      + int ((128 + nat ki) mod 64) * 64 + int ((128 + nat ji) mod 64) \<le> 1114111"
    unfolding val using assms(9,10) by blast
  from decode4_eq [OF c c' c'' this] show ?thesis unfolding 1 val .
qed

lemma glue2: "(a::int) = q * 64 + p \<Longrightarrow> r = a * 64 + k \<Longrightarrow> r = q * 4096 + p * 64 + k"
  by simp
lemma glue3: "(a::int) = q * 64 + p \<Longrightarrow> r = a * 4096 + m * 64 + k
    \<Longrightarrow> r = q * 262144 + p * 4096 + m * 64 + k"
  by simp

lemma split2: "(r::int) = (r div 64) * 64 + r mod 64" by simp
lemma split3: "(r::int) = (r div 4096) * 4096 + ((r div 64) mod 64) * 64 + r mod 64"
proof -
  have a: "r div 4096 = (r div 64) div 64" by (simp add: zdiv_zmult2_eq)
  have b: "r div 64 = (r div 64 div 64) * 64 + (r div 64) mod 64" by simp
  show ?thesis unfolding a by (rule glue2 [OF b split2])
qed
lemma split4: "(r::int) = (r div 262144) * 262144 + ((r div 4096) mod 64) * 4096
     + ((r div 64) mod 64) * 64 + r mod 64"
proof -
  have a: "r div 262144 = (r div 4096) div 64" by (simp add: zdiv_zmult2_eq)
  have b: "r div 4096 = (r div 4096 div 64) * 64 + (r div 4096) mod 64" by simp
  show ?thesis unfolding a by (rule glue3 [OF b split3])
qed

lemma mod64_lo: "0 \<le> (x::int) mod 64" by simp
lemma mod64_hi: "(x::int) mod 64 \<le> 63"
proof -
  have "x mod 64 < 64" by simp
  then show ?thesis by simp
qed
lemma div_hi: "(r::int) \<le> b \<Longrightarrow> 0 < k \<Longrightarrow> r div k \<le> b div k"
  by (rule zdiv_mono1)
lemma div_lo: "(b::int) \<le> r \<Longrightarrow> 0 < k \<Longrightarrow> b div k \<le> r div k"
  by (rule zdiv_mono1)

lemma encodeRune_1: "0 \<le> r \<Longrightarrow> r \<le> 127 \<Longrightarrow> encodeRune r = [nat r]"
proof -
  assume a: "0 \<le> r" "r \<le> 127"
  show ?thesis unfolding encodeRune_def by (simp only: a simp_thms if_True)
qed

lemma encodeRune_2: "128 \<le> r \<Longrightarrow> r \<le> 2047
  \<Longrightarrow> encodeRune r = [192 + nat (r div 64), 128 + nat (r mod 64)]"
proof -
  assume a: "128 \<le> r" "r \<le> 2047"
  have c: "0 \<le> r" "\<not> r \<le> 127" using a by linarith+
  show ?thesis unfolding encodeRune_def by (simp only: c a if_True if_False simp_thms)
qed

lemma encodeRune_bad: "r < 0 \<or> 1114111 < r \<or> (55296 \<le> r \<and> r \<le> 57343)
  \<Longrightarrow> encodeRune r = [239, 191, 189]"
proof -
  assume "r < 0 \<or> 1114111 < r \<or> (55296 \<le> r \<and> r \<le> 57343)"
  then consider (neg) "r < 0" | (big) "1114111 < r" | (sur) "55296 \<le> r" "r \<le> 57343"
    by blast
  then show ?thesis
  proof cases
    case neg
    have c: "\<not> 0 \<le> r" using neg by linarith
    show ?thesis unfolding encodeRune_def by (simp only: c neg if_True if_False simp_thms)
  next
    case big
    have c: "0 \<le> r" "\<not> r \<le> 127" "\<not> r \<le> 2047" "\<not> r < 0" using big by linarith+
    show ?thesis unfolding encodeRune_def by (simp only: c big if_True if_False simp_thms)
  next
    case sur
    have c: "0 \<le> r" "\<not> r \<le> 127" "\<not> r \<le> 2047" "\<not> r < 0" "\<not> 1114111 < r"
      using sur by linarith+
    show ?thesis unfolding encodeRune_def by (simp only: c sur if_True if_False simp_thms)
  qed
qed

lemma encodeRune_3: "2048 \<le> r \<Longrightarrow> r \<le> 65535 \<Longrightarrow> \<not> (55296 \<le> r \<and> r \<le> 57343)
  \<Longrightarrow> encodeRune r = [224 + nat (r div 4096), 128 + nat ((r div 64) mod 64), 128 + nat (r mod 64)]"
proof -
  assume a: "2048 \<le> r" "r \<le> 65535" "\<not> (55296 \<le> r \<and> r \<le> 57343)"
  have c: "0 \<le> r" "\<not> r \<le> 127" "\<not> r \<le> 2047" "\<not> r < 0" "\<not> 1114111 < r"
    using a by linarith+
  have d: "(55296 \<le> r \<and> r \<le> 57343) = False" using a(3) by blast
  show ?thesis unfolding encodeRune_def by (simp only: c d a(2) if_True if_False simp_thms)
qed

lemma encodeRune_4: "65536 \<le> r \<Longrightarrow> r \<le> 1114111
  \<Longrightarrow> encodeRune r = [240 + nat (r div 262144), 128 + nat ((r div 4096) mod 64),
        128 + nat ((r div 64) mod 64), 128 + nat (r mod 64)]"
proof -
  assume a: "65536 \<le> r" "r \<le> 1114111"
  have c: "0 \<le> r" "\<not> r \<le> 127" "\<not> r \<le> 2047" "\<not> r < 0" "\<not> 1114111 < r"
    "\<not> r \<le> 57343" "\<not> r \<le> 65535"
    using a by linarith+
  show ?thesis unfolding encodeRune_def by (simp only: c if_True if_False simp_thms)
qed

lemma validRune_id: "0 \<le> r \<Longrightarrow> r \<le> 1114111 \<Longrightarrow> \<not> (55296 \<le> r \<and> r \<le> 57343) \<Longrightarrow> validRune r = r"
  by (simp add: validRune_def)

lemma validRune_bad: "r < 0 \<or> 1114111 < r \<or> (55296 \<le> r \<and> r \<le> 57343) \<Longrightarrow> validRune r = 65533"
  by (auto simp add: validRune_def)

lemma decodeRune_bad: "decodeRune (239 # 191 # 189 # bs) = (65533, 3)"
proof -
  have 1: "decodeRune (239 # 191 # 189 # bs) = decode3 239 (191 # 189 # bs)"
    by (rule decodeRune_3) simp_all
  have c: "isCont 191" "isCont 189" by (simp_all add: isCont_def)
  have v: "int (239 mod 16) * 4096 + int (191 mod 64) * 64 + int (189 mod 64) = 65533" by simp
  have "2047 < int (239 mod 16) * 4096 + int (191 mod 64) * 64 + int (189 mod 64)
         \<and> \<not> (55296 \<le> int (239 mod 16) * 4096 + int (191 mod 64) * 64 + int (189 mod 64)
              \<and> int (239 mod 16) * 4096 + int (191 mod 64) * 64 + int (189 mod 64) \<le> 57343)"
    unfolding v by simp
  from decode3_eq [OF c this] show ?thesis unfolding 1 v .
qed

lemma decode_encode1:
  "decodeRune (encodeRune r @ bs) = (validRune r, length (encodeRune r))"
proof -
  consider (a) "0 \<le> r \<and> r \<le> 127" | (b) "128 \<le> r \<and> r \<le> 2047"
    | (c) "r < 0 \<or> 1114111 < r \<or> (55296 \<le> r \<and> r \<le> 57343)"
    | (d) "2048 \<le> r \<and> r \<le> 65535 \<and> \<not> (55296 \<le> r \<and> r \<le> 57343)"
    | (e) "65536 \<le> r \<and> r \<le> 1114111"
    by linarith
  then show ?thesis
  proof cases
    case a
    then have n: "nat r < 128" by linarith
    have e: "encodeRune r = [nat r]" using a by (intro encodeRune_1) simp_all
    have v: "validRune r = r" using a by (intro validRune_id) simp_all
    show ?thesis unfolding e v using n a by simp
  next
    case b
    define q where "q = r div 64"
    define m where "m = r mod 64"
    have r: "r = q * 64 + m" unfolding q_def m_def by simp
    have "128 div 64 \<le> r div 64" using b by (intro div_lo) simp_all
    moreover have "r div 64 \<le> 2047 div 64" using b by (intro div_hi) simp_all
    ultimately have qb: "2 \<le> q" "q \<le> 31" unfolding q_def by simp_all
    have mb: "0 \<le> m" "m \<le> 63" unfolding m_def using mod64_lo mod64_hi by blast+
    have e: "encodeRune r = [192 + nat q, 128 + nat m]"
      unfolding q_def m_def using b by (intro encodeRune_2) simp_all
    have v: "validRune r = r" using b by (intro validRune_id) simp_all
    have "decodeRune ((192 + nat q) # (128 + nat m) # bs) = (r, 2)"
      using rt2 [OF qb mb, of bs] r by simp
    then show ?thesis unfolding e v by simp
  next
    case c
    have e: "encodeRune r = [239, 191, 189]" using c by (rule encodeRune_bad)
    have v: "validRune r = 65533" using c by (rule validRune_bad)
    show ?thesis unfolding e v using decodeRune_bad [of bs] by simp
  next
    case d
    define q where "q = r div 4096"
    define m where "m = (r div 64) mod 64"
    define k where "k = r mod 64"
    have r: "r = q * 4096 + m * 64 + k" unfolding q_def m_def k_def by (rule split3)
    have "0 div 4096 \<le> r div 4096" using d by (intro div_lo) simp_all
    moreover have "r div 4096 \<le> 65535 div 4096" using d by (intro div_hi) simp_all
    ultimately have qb: "0 \<le> q" "q \<le> 15" unfolding q_def by simp_all
    have mb: "0 \<le> m" "m \<le> 63" unfolding m_def using mod64_lo mod64_hi by blast+
    have kb: "0 \<le> k" "k \<le> 63" unfolding k_def using mod64_lo mod64_hi by blast+
    have e: "encodeRune r = [224 + nat q, 128 + nat m, 128 + nat k]"
      unfolding q_def m_def k_def using d by (intro encodeRune_3) simp_all
    have v: "validRune r = r" using d by (intro validRune_id) simp_all
    have g1: "2047 < q * 4096 + m * 64 + k" using d r by simp
    have g2: "\<not> (55296 \<le> q * 4096 + m * 64 + k \<and> q * 4096 + m * 64 + k \<le> 57343)"
      using d r by simp
    have "decodeRune ((224 + nat q) # (128 + nat m) # (128 + nat k) # bs) = (r, 3)"
      using rt3 [OF qb mb kb g1 g2, of bs] r by simp
    then show ?thesis unfolding e v by simp
  next
    case e
    define q where "q = r div 262144"
    define m where "m = (r div 4096) mod 64"
    define k where "k = (r div 64) mod 64"
    define j where "j = r mod 64"
    have r: "r = q * 262144 + m * 4096 + k * 64 + j"
      unfolding q_def m_def k_def j_def by (rule split4)
    have "0 div 262144 \<le> r div 262144" using e by (intro div_lo) simp_all
    moreover have "r div 262144 \<le> 1114111 div 262144" using e by (intro div_hi) simp_all
    ultimately have qb: "0 \<le> q" "q \<le> 7" unfolding q_def by simp_all
    have mb: "0 \<le> m" "m \<le> 63" unfolding m_def using mod64_lo mod64_hi by blast+
    have kb: "0 \<le> k" "k \<le> 63" unfolding k_def using mod64_lo mod64_hi by blast+
    have jb: "0 \<le> j" "j \<le> 63" unfolding j_def using mod64_lo mod64_hi by blast+
    have en: "encodeRune r = [240 + nat q, 128 + nat m, 128 + nat k, 128 + nat j]"
      unfolding q_def m_def k_def j_def using e by (intro encodeRune_4) simp_all
    have v: "validRune r = r" using e by (intro validRune_id) simp_all
    have g1: "65535 < q * 262144 + m * 4096 + k * 64 + j" using e r by simp
    have g2: "q * 262144 + m * 4096 + k * 64 + j \<le> 1114111" using e r by simp
    have "decodeRune ((240 + nat q) # (128 + nat m) # (128 + nat k) # (128 + nat j) # bs) = (r, 4)"
      using rt4 [OF qb mb kb jb g1 g2, of bs] r by simp
    then show ?thesis unfolding en v by simp
  qed
qed

lemma encodeRune_length: "1 \<le> length (encodeRune r)"
  by (simp add: encodeRune_def)

lemma stringToRunes_encode:
  "stringToRunes (encodeRune r @ bs) = validRune r # stringToRunes bs"
proof -
  obtain b rest where e: "encodeRune r = b # rest"
    using encodeRune_length [of r] by (cases "encodeRune r") auto
  have "decodeRune (b # rest @ bs) = (validRune r, Suc (length rest))"
    using decode_encode1 [of r bs] e by simp
  then show ?thesis using e by simp
qed

lemma stringToRunes_runesToString: "stringToRunes (runesToString rs) = map validRune rs"
  by (induction rs) (simp_all add: runesToString_def stringToRunes_encode)

section \<open>The tree and its content\<close>

lemma wf_node_not_Nil: "wf_node n \<Longrightarrow> n \<noteq> Nil"
  by (cases n) auto

lemma length_node_content: "wf_node n \<Longrightarrow> length_node n = int (length (content n))"
  by (induction n) auto

lemma runeAt_content:
  "wf_node n \<Longrightarrow> 0 \<le> i \<Longrightarrow> i < int (length (content n)) \<Longrightarrow> runeAt n i = Inr (content n ! nat i)"
proof (induction n arbitrary: i)
  case Nil
  then show ?case by simp
next
  case (Leaf d)
  then show ?case by simp
next
  case (Internal l r w)
  show ?case
  proof (cases "i < w")
    case True
    then have "runeAt l i = Inr (content l ! nat i)"
      using Internal by simp
    moreover have "nat i < length (content l)" using True Internal.prems by simp
    ultimately show ?thesis
      using True Internal.prems by (simp add: wf_node_not_Nil nth_append)
  next
    case False
    then have "runeAt r (i - w) = Inr (content r ! nat (i - w))"
      using Internal by simp
    moreover have "\<not> nat i < length (content l)" "nat (i - w) = nat i - length (content l)"
      using False Internal.prems by auto
    ultimately show ?thesis
      using False Internal.prems by (simp add: wf_node_not_Nil nth_append)
  qed
qed

lemma insert_node_content:
  "wf_node n \<Longrightarrow> 0 \<le> i \<Longrightarrow> i \<le> int (length (content n))
   \<Longrightarrow> \<exists>n'. insert_node n i ru = Some n' \<and> wf_node n'
        \<and> content n' = take (nat i) (content n) @ ru # drop (nat i) (content n)"
proof (induction n arbitrary: i)
  case Nil
  then show ?case by simp
next
  case (Leaf d)
  define d' where "d' = take (nat i) d @ [ru] @ drop (nat i) d"
  have "take (length d' div 2) d' @ drop (length d' div 2) d' = d'" by simp
  then show ?case using Leaf unfolding d'_def
    by (simp add: Let_def del: take_append drop_append append_take_drop_id)
next
  case (Internal l r w)
  show ?case
  proof (cases "i < w")
    case True
    then obtain l' where l': "insert_node l i ru = Some l'" "wf_node l'"
      "content l' = take (nat i) (content l) @ ru # drop (nat i) (content l)"
      using Internal.IH(1) [of i] Internal.prems by auto
    have "nat i \<le> length (content l)" using True Internal.prems by simp
    then show ?thesis using True l' Internal.prems by simp
  next
    case False
    then obtain r' where r': "insert_node r (i - w) ru = Some r'" "wf_node r'"
      "content r' = take (nat (i - w)) (content r) @ ru # drop (nat (i - w)) (content r)"
      using Internal.IH(2) [of "i - w"] Internal.prems by auto
    have "nat (i - w) = nat i - length (content l)" "length (content l) \<le> nat i"
      using False Internal.prems by auto
    then show ?thesis using False r' Internal.prems by simp
  qed
qed

lemma promote_content:
  "wf_node l \<Longrightarrow> wf_node r \<Longrightarrow> w = int (length (content l))
   \<Longrightarrow> wf_node (promote l r w) \<and> content (promote l r w) = content l @ content r"
  by (auto simp add: promote_def length_node_content)

lemma delete_node_content:
  "wf_node n \<Longrightarrow> 0 \<le> i \<Longrightarrow> i < int (length (content n))
   \<Longrightarrow> \<exists>n'. delete_node n i = Some n' \<and> wf_node n'
        \<and> content n' = take (nat i) (content n) @ drop (nat i + 1) (content n)"
proof (induction n arbitrary: i)
  case Nil
  then show ?case by simp
next
  case (Leaf d)
  then show ?case by simp
next
  case (Internal l r w)
  show ?case
  proof (cases "i < w")
    case True
    then obtain l' where l': "delete_node l i = Some l'" "wf_node l'"
      "content l' = take (nat i) (content l) @ drop (nat i + 1) (content l)"
      using Internal.IH(1) [of i] Internal.prems by auto
    have lt: "nat i < length (content l)" using True Internal.prems by simp
    then have "w - 1 = int (length (content l'))" using l'(3) Internal.prems by auto
    then have "wf_node (promote l' r (w - 1)) \<and> content (promote l' r (w - 1)) = content l' @ content r"
      using promote_content l'(2) Internal.prems by simp
    then show ?thesis using True l' lt by simp
  next
    case False
    then obtain r' where r': "delete_node r (i - w) = Some r'" "wf_node r'"
      "content r' = take (nat (i - w)) (content r) @ drop (nat (i - w) + 1) (content r)"
      using Internal.IH(2) [of "i - w"] Internal.prems by auto
    have e: "nat (i - w) = nat i - length (content l)" "length (content l) \<le> nat i"
      "Suc (nat i) - length (content l) = Suc (nat i - length (content l))"
      using False Internal.prems by auto
    have "wf_node (promote l r' w) \<and> content (promote l r' w) = content l @ content r'"
      using promote_content r'(2) Internal.prems by simp
    then show ?thesis using False r' e by simp
  qed
qed

lemma writeTo_builder:
  "writeTo builderWrite n s
     = ((int (length (runesToString (content n))), None), s @ runesToString (content n))"
  by (induction n arbitrary: s) (simp_all add: builderWrite_def runesToString_def)

lemma leafLineStarts_append:
  "leafLineStarts off (xs @ ys) = leafLineStarts off xs @ leafLineStarts (off + int (length xs)) ys"
  by (induction xs arbitrary: off) (simp_all add: add.assoc)

lemma rebuildLineIndexHelper_content:
  "wf_node n \<Longrightarrow> rebuildLineIndexHelper n off ls = ls @ leafLineStarts off (content n)"
  by (induction n arbitrary: off ls) (simp_all add: leafLineStarts_append)

section \<open>The line index under insertion and deletion\<close>

lemma leafLineStarts_bounds:
  "x \<in> set (leafLineStarts off xs) \<Longrightarrow> off < x \<and> x \<le> off + int (length xs)"
proof (induction xs arbitrary: off)
  case Nil
  then show ?case by simp
next
  case (Cons a xs)
  then show ?case by (fastforce split: if_splits)
qed

lemma leafLineStarts_sorted: "sorted_wrt (<) (leafLineStarts off xs)"
proof (induction xs arbitrary: off)
  case Nil
  then show ?case by simp
next
  case (Cons a xs)
  have "\<forall>x \<in> set (leafLineStarts (off + 1) xs). off + 1 < x"
    using leafLineStarts_bounds by blast
  then show ?case using Cons by (auto simp add: sorted_wrt_append)
qed

lemma leafLineStarts_shift:
  "leafLineStarts (off + d) xs = map (\<lambda>v. v + d) (leafLineStarts off xs)"
proof (induction xs arbitrary: off)
  case Nil
  then show ?case by simp
next
  case (Cons a xs)
  have "leafLineStarts (off + d + 1) xs = leafLineStarts (off + 1 + d) xs"
    by (simp add: add.commute add.left_commute)
  then show ?case using Cons [of "off + 1"] by simp
qed

lemma leafLineStarts_valid: "leafLineStarts off (map validRune xs) = leafLineStarts off xs"
proof (induction xs arbitrary: off)
  case Nil
  then show ?case by simp
next
  case (Cons a xs)
  have "(validRune a = 10) = (a = 10)" by (auto simp add: validRune_def)
  then show ?case using Cons by simp
qed

lemma SearchInts_split:
  "\<forall>x \<in> set P. x < i \<Longrightarrow> \<forall>x \<in> set Q. i \<le> x \<Longrightarrow> SearchInts (P @ Q) i = int (length P)"
proof -
  assume p: "\<forall>x \<in> set P. x < i" and q: "\<forall>x \<in> set Q. i \<le> x"
  have "takeWhile (\<lambda>v. v < i) (P @ Q) = P @ takeWhile (\<lambda>v. v < i) Q"
    using p by simp
  moreover have "takeWhile (\<lambda>v. v < i) Q = []"
    using q by (cases Q) auto
  ultimately show ?thesis by (simp add: SearchInts_def)
qed

lemma findLine_split:
  assumes srt: "sorted_wrt (<) P" and ne: "P \<noteq> []"
    and le: "\<forall>x \<in> set P. x \<le> i" and gt: "\<forall>x \<in> set Q. i < x"
    and ls: "lineStarts r = P @ Q"
  shows "findLine r i = int (length P) - 1"
proof (cases "last P = i")
  case True
  obtain P' where P': "P = P' @ [i]" using ne True by (metis append_butlast_last_id)
  have lt: "\<forall>x \<in> set P'. x < i" using srt unfolding P' by (auto simp add: sorted_wrt_append)
  have "\<forall>x \<in> set (i # Q). i \<le> x" using gt by auto
  then have s: "SearchInts (P' @ (i # Q)) i = int (length P')" using lt by (rule SearchInts_split [rotated])
  have lsr: "lineStarts r = P' @ i # Q" using ls P' by simp
  show ?thesis unfolding findLine_def lsr s using P' by (simp add: Let_def nth_append)
next
  case False
  have "last P \<in> set P" using ne by simp
  then have "last P < i" using le False by fastforce
  have lt: "\<forall>x \<in> set P. x < i"
  proof
    fix x assume x: "x \<in> set P"
    show "x < i"
    proof (cases "x = last P")
      case True
      then show ?thesis using \<open>last P < i\<close> by simp
    next
      case False
      then have "x \<in> set (butlast P)" using x ne
        by (metis append_butlast_last_id rotate1.simps(2) set_ConsD set_rotate1)
      then have "x < last P" using srt ne
        by (metis append_butlast_last_id sorted_wrt_append list.set_intros(1))
      then show ?thesis using \<open>last P < i\<close> by simp
    qed
  qed
  have "\<forall>x \<in> set Q. i \<le> x" using gt by auto
  then have s: "SearchInts (P @ Q) i = int (length P)" using lt by (rule SearchInts_split [rotated])
  have nz: "int (length P) \<noteq> 0" using ne by simp
  have "\<not> (int (length P) < int (length (P @ Q)) \<and> (P @ Q) ! nat (int (length P)) = i)"
  proof (cases Q)
    case Nil
    then show ?thesis by simp
  next
    case (Cons q Q')
    then have "i < q" using gt by simp
    then show ?thesis using Cons by (simp add: nth_append)
  qed
  then show ?thesis unfolding findLine_def ls s using nz by (simp add: Let_def)
qed

lemma lineStartsOf_insert:
  assumes "k \<le> length c"
  shows "lineStartsOf c = (0 # leafLineStarts 0 (take k c)) @ leafLineStarts (int k) (drop k c)"
    and "lineStartsOf (take k c @ ru # drop k c)
       = (0 # leafLineStarts 0 (take k c)) @ (if ru = 10 then [int k + 1] else [])
         @ map (\<lambda>v. v + 1) (leafLineStarts (int k) (drop k c))"
proof -
  have "leafLineStarts 0 c = leafLineStarts 0 (take k c @ drop k c)" by simp
  also have "\<dots> = leafLineStarts 0 (take k c) @ leafLineStarts (int k) (drop k c)"
    using assms by (simp only: leafLineStarts_append) simp
  finally show "lineStartsOf c = (0 # leafLineStarts 0 (take k c)) @ leafLineStarts (int k) (drop k c)"
    by (simp add: lineStartsOf_def)
  have "leafLineStarts 0 (take k c @ ru # drop k c)
      = leafLineStarts 0 (take k c) @ leafLineStarts (int k) (ru # drop k c)"
    using assms by (simp only: leafLineStarts_append) simp
  moreover have "leafLineStarts (int k) (ru # drop k c)
      = (if ru = 10 then [int k + 1] else []) @ map (\<lambda>v. v + 1) (leafLineStarts (int k) (drop k c))"
    using leafLineStarts_shift [of "int k" 1 "drop k c"] by simp
  ultimately show "lineStartsOf (take k c @ ru # drop k c)
       = (0 # leafLineStarts 0 (take k c)) @ (if ru = 10 then [int k + 1] else [])
         @ map (\<lambda>v. v + 1) (leafLineStarts (int k) (drop k c))"
    by (simp add: lineStartsOf_def)
qed

lemma lineStartsOf_delete:
  assumes "k < length c"
  shows "lineStartsOf c = (0 # leafLineStarts 0 (take k c)) @ (if c ! k = 10 then [int k + 1] else [])
         @ leafLineStarts (int k + 1) (drop (k + 1) c)"
    and "lineStartsOf (take k c @ drop (k + 1) c)
       = (0 # leafLineStarts 0 (take k c))
         @ map (\<lambda>v. v + (- 1)) (leafLineStarts (int k + 1) (drop (k + 1) c))"
proof -
  have c: "c = take k c @ c ! k # drop (k + 1) c"
    using assms by (simp add: id_take_nth_drop)
  have "leafLineStarts 0 c = leafLineStarts 0 (take k c @ c ! k # drop (k + 1) c)"
    using c by simp
  also have "\<dots> = leafLineStarts 0 (take k c) @ leafLineStarts (int k) (c ! k # drop (k + 1) c)"
    using assms by (simp only: leafLineStarts_append) simp
  finally show "lineStartsOf c = (0 # leafLineStarts 0 (take k c)) @ (if c ! k = 10 then [int k + 1] else [])
         @ leafLineStarts (int k + 1) (drop (k + 1) c)"
    by (simp add: lineStartsOf_def)
  have "leafLineStarts 0 (take k c @ drop (k + 1) c)
      = leafLineStarts 0 (take k c) @ leafLineStarts (int k) (drop (k + 1) c)"
    using assms by (simp only: leafLineStarts_append) simp
  moreover have "leafLineStarts (int k) (drop (k + 1) c)
      = map (\<lambda>v. v + (- 1)) (leafLineStarts (int k + 1) (drop (k + 1) c))"
    using leafLineStarts_shift [of "int k + 1" "- 1" "drop (k + 1) c"] by simp
  ultimately show "lineStartsOf (take k c @ drop (k + 1) c)
       = (0 # leafLineStarts 0 (take k c))
         @ map (\<lambda>v. v + (- 1)) (leafLineStarts (int k + 1) (drop (k + 1) c))"
    by (simp add: lineStartsOf_def)
qed

lemma prefix_starts_props:
  "sorted_wrt (<) (0 # leafLineStarts 0 (take k c))"
  "\<forall>x \<in> set (0 # leafLineStarts 0 (take k c)). x \<le> int k"
proof -
  have b: "\<forall>x \<in> set (leafLineStarts 0 (take k c)). 0 < x \<and> x \<le> int (length (take k c))"
    using leafLineStarts_bounds [of _ 0 "take k c"] by simp
  show "sorted_wrt (<) (0 # leafLineStarts 0 (take k c))"
    using b leafLineStarts_sorted [of 0 "take k c"] by simp
  show "\<forall>x \<in> set (0 # leafLineStarts 0 (take k c)). x \<le> int k"
    using b by auto
qed

lemma updateLineIndexOnInsert_correct:
  assumes k: "k \<le> length c" and ls: "lineStarts r = lineStartsOf c"
  shows "lineStarts (updateLineIndexOnInsert r (int k) ru) = lineStartsOf (take k c @ ru # drop k c)"
proof -
  define P where "P = 0 # leafLineStarts 0 (take k c)"
  define Q where "Q = leafLineStarts (int k) (drop k c)"
  have lsr: "lineStarts r = P @ Q" using lineStartsOf_insert(1) [OF k] ls by (simp add: P_def Q_def)
  have new: "lineStartsOf (take k c @ ru # drop k c)
     = P @ (if ru = 10 then [int k + 1] else []) @ map (\<lambda>v. v + 1) Q"
    using lineStartsOf_insert(2) [OF k] by (simp add: P_def Q_def)
  have gt: "\<forall>x \<in> set Q. int k < x" unfolding Q_def using leafLineStarts_bounds by blast
  have fl: "findLine r (int k) = int (length P) - 1"
    using findLine_split [OF _ _ _ gt lsr] prefix_starts_props [of k c] unfolding P_def by simp
  have n: "nat (int (length P) - 1 + 1) = length P" by simp
  show ?thesis unfolding new updateLineIndexOnInsert_def fl Let_def shiftFrom_def n lsr
    by simp
qed

lemma updateLineIndexOnDelete_correct:
  assumes k: "k < length c" and ls: "lineStarts r = lineStartsOf c"
  shows "lineStarts (updateLineIndexOnDelete r (int k) (c ! k)) = lineStartsOf (take k c @ drop (k + 1) c)"
proof -
  define P where "P = 0 # leafLineStarts 0 (take k c)"
  define M where "M = (if c ! k = 10 then [int k + 1] else [])"
  define Q where "Q = leafLineStarts (int k + 1) (drop (k + 1) c)"
  have lsr: "lineStarts r = P @ (M @ Q)"
    using lineStartsOf_delete(1) [OF k] ls by (simp add: P_def Q_def M_def)
  have new: "lineStartsOf (take k c @ drop (k + 1) c) = P @ map (\<lambda>v. v + (- 1)) Q"
    using lineStartsOf_delete(2) [OF k] by (simp add: P_def Q_def)
  have "\<forall>x \<in> set Q. int k < x" unfolding Q_def using leafLineStarts_bounds by fastforce
  then have gt: "\<forall>x \<in> set (M @ Q). int k < x" unfolding M_def by auto
  have fl: "findLine r (int k) = int (length P) - 1"
    using findLine_split [OF _ _ _ gt lsr] prefix_starts_props [of k c] unfolding P_def by simp
  have n: "nat (int (length P) - 1 + 1) = length P" "nat (int (length P) - 1 + 2) = Suc (length P)"
    by simp_all
  show ?thesis
  proof (cases "c ! k = 10")
    case True
    then have M: "M = [int k + 1]" by (simp add: M_def)
    show ?thesis unfolding new updateLineIndexOnDelete_def fl Let_def shiftFrom_def n lsr M
      using True by simp
  next
    case False
    then have M: "M = []" by (simp add: M_def)
    show ?thesis unfolding new updateLineIndexOnDelete_def fl Let_def shiftFrom_def n lsr M
      using False by simp
  qed
qed

section \<open>The invariant of the rope\<close>

lemma lineStartsOf_valid: "lineStartsOf (map validRune c) = lineStartsOf c"
  by (simp add: lineStartsOf_def leafLineStarts_valid)

lemma length_leafLineStarts: "length (leafLineStarts off c) = count_list c 10"
  by (induction c arbitrary: off) simp_all

lemma length_lineStartsOf: "int (length (lineStartsOf c)) = 1 + int (count_list c 10)"
  by (simp add: lineStartsOf_def length_leafLineStarts)

lemma lineStartsOf_sorted: "sorted_wrt (<) (lineStartsOf c)"
  using prefix_starts_props(1) [of "length c" c] by (simp add: lineStartsOf_def)

lemma lineStartsOf_bounds: "x \<in> set (lineStartsOf c) \<Longrightarrow> 0 \<le> x \<and> x \<le> int (length c)"
  using leafLineStarts_bounds [of x 0 c] by (auto simp add: lineStartsOf_def)

lemma lineLength_nonneg:
  assumes "0 \<le> line" "line < int (length (lineStartsOf c))"
  shows "0 \<le> lineLength c line"
proof (cases "line + 1 < int (length (lineStartsOf c))")
  case True
  have "nat line < nat (line + 1)" "nat (line + 1) < length (lineStartsOf c)"
    using assms True by auto
  then have "lineStartsOf c ! nat line < lineStartsOf c ! nat (line + 1)"
    using lineStartsOf_sorted [of c] by (simp add: sorted_wrt_iff_nth_less)
  then show ?thesis using True by (simp add: lineLength_def)
next
  case False
  have "lineStartsOf c ! nat line \<in> set (lineStartsOf c)" using assms by simp
  then have "lineStartsOf c ! nat line \<le> int (length c)" using lineStartsOf_bounds by blast
  then show ?thesis using False by (simp add: lineLength_def)
qed

lemma offsetOf_bounds:
  assumes "0 \<le> line" "line < int (length (lineStartsOf c))"
  shows "0 \<le> offsetOf c line col \<and> offsetOf c line col \<le> int (length c)"
proof -
  have s: "lineStartsOf c ! nat line \<in> set (lineStartsOf c)" using assms by simp
  then have s0: "0 \<le> lineStartsOf c ! nat line" "lineStartsOf c ! nat line \<le> int (length c)"
    using lineStartsOf_bounds by blast+
  have n: "0 \<le> lineLength c line" using assms by (rule lineLength_nonneg)
  have up: "lineStartsOf c ! nat line + lineLength c line \<le> int (length c)"
  proof (cases "line + 1 < int (length (lineStartsOf c))")
    case True
    have "lineStartsOf c ! nat (line + 1) \<in> set (lineStartsOf c)" using assms True by simp
    then have "lineStartsOf c ! nat (line + 1) \<le> int (length c)" using lineStartsOf_bounds by blast
    then show ?thesis using True by (simp add: lineLength_def)
  next
    case False
    then show ?thesis by (simp add: lineLength_def)
  qed
  show ?thesis unfolding offsetOf_def using s0 n up by (simp add: max_def min_def)
qed

lemma getIndex_inv:
  assumes inv: "rope_inv r" and line: "0 \<le> line" "line < int (length (lineStarts r))"
  shows "getIndex r line col = (offsetOf (runes r) line col, None)"
proof -
  have nn: "root r \<noteq> Nil" using inv by (auto simp add: rope_inv_def wf_node_not_Nil)
  have ls: "lineStarts r = lineStartsOf (runes r)" using inv by (simp add: rope_inv_def runes_def)
  have len: "length_node (root r) = int (length (runes r))"
    using inv by (simp add: rope_inv_def runes_def length_node_content)
  have "0 \<le> lineLength (runes r) line"
    using lineLength_nonneg [of line "runes r"] line ls by simp
  then show ?thesis using nn line unfolding getIndex_def offsetOf_def lineLength_def Let_def len ls [symmetric]
    by (simp add: max_def min_def)
qed

lemma getIndex_outside:
  assumes inv: "rope_inv r" and line: "line < 0 \<or> int (length (lineStarts r)) \<le> line"
  shows "snd (getIndex r line col) \<noteq> None"
proof -
  have nn: "root r \<noteq> Nil" using inv by (auto simp add: rope_inv_def wf_node_not_Nil)
  show ?thesis using nn line unfolding getIndex_def by auto
qed

lemma rope_inv_rebuild:
  "wf_node n \<Longrightarrow> rope_inv (rebuildLineIndex (r\<lparr>root := n\<rparr>))"
  by (simp add: rope_inv_def rebuildLineIndex_def wf_node_not_Nil rebuildLineIndexHelper_content lineStartsOf_def)

lemma rebalance_inv:
  assumes "wf_node (root r)"
  shows "rope_inv (rebalance r)" "runes (rebalance r) = map validRune (runes r)"
proof -
  have nn: "root r \<noteq> Nil" using assms by (simp add: wf_node_not_Nil)
  have c: "stringToRunes (snd (writeTo builderWrite (root r) [])) = map validRune (content (root r))"
    by (simp add: writeTo_builder stringToRunes_runesToString)
  have e: "rebalance r = rebuildLineIndex (r\<lparr>root := Leaf (map validRune (content (root r)))\<rparr>)"
    using nn c by (simp add: rebalance_def Let_def)
  show "rope_inv (rebalance r)" unfolding e by (rule rope_inv_rebuild) simp
  show "runes (rebalance r) = map validRune (runes r)"
    unfolding e by (simp add: runes_def rebuildLineIndex_def)
qed

lemma NewRope_inv: "rope_inv (NewRope t)" "runes (NewRope t) = stringToRunes t"
  by (simp_all add: NewRope_def rope_inv_def rebuildLineIndex_def lineStartsOf_def runes_def)

lemma LineCount_inv: "rope_inv r \<Longrightarrow> LineCount r = int (length (lineStarts r))"
  by (simp add: LineCount_def rope_inv_def lineStartsOf_def)

lemma Insert_inv:
  assumes inv: "rope_inv r" and line: "0 \<le> line" "line < LineCount r"
  shows "\<exists>r'. Insert r line col ru = Some (r', None) \<and> rope_inv r'
      \<and> (runes r' = take (nat (offsetOf (runes r) line col)) (runes r) @ ru
                       # drop (nat (offsetOf (runes r) line col)) (runes r)
         \<or> runes r' = map validRune (take (nat (offsetOf (runes r) line col)) (runes r) @ ru
                       # drop (nat (offsetOf (runes r) line col)) (runes r)))"
proof -
  define c where "c = runes r"
  define idx where "idx = offsetOf c line col"
  define k where "k = nat idx"
  have nn: "root r \<noteq> Nil" using inv by (auto simp add: rope_inv_def wf_node_not_Nil)
  have wf: "wf_node (root r)" using inv by (simp add: rope_inv_def)
  have ls: "lineStarts r = lineStartsOf c" using inv by (simp add: rope_inv_def runes_def c_def)
  have line': "line < int (length (lineStarts r))" using line LineCount_inv [OF inv] by simp
  have gi: "getIndex r line col = (idx, None)"
    using getIndex_inv [OF inv line(1) line'] by (simp add: idx_def c_def)
  have b: "0 \<le> idx" "idx \<le> int (length c)"
    using offsetOf_bounds [of line c col] line(1) line' ls by (simp_all add: idx_def)
  then have ik: "idx = int k" "k \<le> length c" by (simp_all add: k_def)
  obtain n where n: "insert_node (root r) idx ru = Some n" "wf_node n"
      "content n = take k c @ ru # drop k c"
    using insert_node_content [OF wf b(1), of ru] b(2) by (auto simp add: c_def runes_def k_def)
  define r1 where "r1 = updateLineIndexOnInsert (r\<lparr>root := n\<rparr>) idx ru"
  have r1root: "root r1 = n" by (simp add: r1_def updateLineIndexOnInsert_def Let_def)
  have "lineStarts r1 = lineStartsOf (take k c @ ru # drop k c)"
    unfolding r1_def ik(1) by (rule updateLineIndexOnInsert_correct [OF ik(2)]) (simp add: ls)
  then have inv1: "rope_inv r1" using n r1root by (simp add: rope_inv_def)
  have run1: "runes r1 = take k c @ ru # drop k c" using n r1root by (simp add: runes_def)
  have res: "Insert r line col ru = Some (if shouldRebalance r1 then rebalance r1 else r1, None)"
    using nn gi n(1) by (simp add: Insert_def Let_def r1_def)
  show ?thesis
  proof (cases "shouldRebalance r1")
    case True
    have "rope_inv (rebalance r1)" "runes (rebalance r1) = map validRune (runes r1)"
      using rebalance_inv [of r1] inv1 by (simp_all add: rope_inv_def)
    then show ?thesis using res True run1 by (simp add: c_def [symmetric] idx_def [symmetric] k_def [symmetric])
  next
    case False
    then show ?thesis using res inv1 run1 by (simp add: c_def [symmetric] idx_def [symmetric] k_def [symmetric])
  qed
qed

lemma Delete_inv:
  assumes inv: "rope_inv r" and line: "0 \<le> line" "line < LineCount r"
    and nz: "\<not> (col = 0 \<and> line = 0)" and pos: "offsetOf (runes r) line col \<noteq> 0"
  shows "\<exists>r'. Delete r line col = Some (r', None) \<and> rope_inv r'
      \<and> (runes r' = take (nat (offsetOf (runes r) line col) - 1) (runes r)
                       @ drop (nat (offsetOf (runes r) line col)) (runes r)
         \<or> runes r' = map validRune (take (nat (offsetOf (runes r) line col) - 1) (runes r)
                       @ drop (nat (offsetOf (runes r) line col)) (runes r)))"
proof -
  define c where "c = runes r"
  define idx where "idx = offsetOf c line col"
  define k where "k = nat idx - 1"
  have nn: "root r \<noteq> Nil" using inv by (auto simp add: rope_inv_def wf_node_not_Nil)
  have wf: "wf_node (root r)" using inv by (simp add: rope_inv_def)
  have ls: "lineStarts r = lineStartsOf c" using inv by (simp add: rope_inv_def runes_def c_def)
  have line': "line < int (length (lineStarts r))" using line LineCount_inv [OF inv] by simp
  have gi: "getIndex r line col = (idx, None)"
    using getIndex_inv [OF inv line(1) line'] by (simp add: idx_def c_def)
  have b: "0 \<le> idx" "idx \<le> int (length c)"
    using offsetOf_bounds [of line c col] line(1) line' ls by (simp_all add: idx_def)
  have idx1: "1 \<le> idx" using b pos by (simp add: idx_def c_def)
  then have ik: "idx - 1 = int k" "k < length c" "nat idx = k + 1" using b by (simp_all add: k_def)
  have len: "length_node (root r) = int (length c)"
    using wf by (simp add: length_node_content c_def runes_def)
  have ra: "RuneAt r (idx - 1) = Inr (c ! k)"
    using runeAt_content [OF wf, of "idx - 1"] nn ik len
    by (simp add: RuneAt_def Let_def c_def runes_def)
  obtain n where n: "delete_node (root r) (idx - 1) = Some n" "wf_node n"
      "content n = take k c @ drop (k + 1) c"
    using delete_node_content [OF wf, of "idx - 1"] ik by (auto simp add: c_def runes_def)
  define r1 where "r1 = updateLineIndexOnDelete (r\<lparr>root := n\<rparr>) (idx - 1) (c ! k)"
  have r1root: "root r1 = n" by (simp add: r1_def updateLineIndexOnDelete_def Let_def)
  have "lineStarts r1 = lineStartsOf (take k c @ drop (k + 1) c)"
    unfolding r1_def ik(1) by (rule updateLineIndexOnDelete_correct [OF ik(2)]) (simp add: ls)
  then have inv1: "rope_inv r1" using n r1root by (simp add: rope_inv_def)
  have run1: "runes r1 = take k c @ drop (k + 1) c" using n r1root by (simp add: runes_def)
  have idxnz: "idx \<noteq> 0" using idx1 by simp
  have res: "Delete r line col = Some (if shouldRebalance r1 then rebalance r1 else r1, None)"
    using nn nz gi idxnz ra n(1) by (simp add: Delete_def Let_def r1_def)
  have fold: "nat (offsetOf (runes r) line col) - 1 = k" "nat (offsetOf (runes r) line col) = k + 1"
    using ik by (simp_all add: k_def idx_def c_def)
  show ?thesis
  proof (cases "shouldRebalance r1")
    case True
    have "rope_inv (rebalance r1)" "runes (rebalance r1) = map validRune (runes r1)"
      using rebalance_inv [of r1] inv1 by (simp_all add: rope_inv_def)
    then show ?thesis unfolding fold using res True run1 by (simp add: c_def [symmetric])
  next
    case False
    then show ?thesis unfolding fold using res inv1 run1 by (simp add: c_def [symmetric])
  qed
qed

lemma Insert_error_unchanged:
  "Insert r line col ru = Some (r', Some e) \<Longrightarrow> r' = (if root r = Nil then r\<lparr>root := Leaf []\<rparr> else r)"
  by (auto simp add: Insert_def Let_def split: prod.splits option.splits if_splits)

lemma Delete_error_unchanged:
  "Delete r line col = Some (r', Some e) \<Longrightarrow> r' = r"
  by (auto simp add: Delete_def Let_def split: prod.splits option.splits if_splits sum.splits)

lemma Insert_outside:
  assumes inv: "rope_inv r" and line: "line < 0 \<or> LineCount r \<le> line"
  shows "\<exists>e. Insert r line col ru = Some (r, Some (InvalidPosition line col e))"
proof -
  have nn: "root r \<noteq> Nil" using inv by (auto simp add: rope_inv_def wf_node_not_Nil)
  have "snd (getIndex r line col) \<noteq> None"
    using getIndex_outside [OF inv] line LineCount_inv [OF inv] by simp
  then obtain i e where "getIndex r line col = (i, Some e)"
    by (cases "getIndex r line col") auto
  then show ?thesis using nn by (simp add: Insert_def Let_def)
qed

lemma Delete_outside:
  assumes inv: "rope_inv r" and line: "line < 0 \<or> LineCount r \<le> line"
  shows "\<exists>e. Delete r line col = Some (r, Some e)"
proof -
  have nn: "root r \<noteq> Nil" using inv by (auto simp add: rope_inv_def wf_node_not_Nil)
  have "snd (getIndex r line col) \<noteq> None"
    using getIndex_outside [OF inv] line LineCount_inv [OF inv] by simp
  then obtain i e where "getIndex r line col = (i, Some e)"
    by (cases "getIndex r line col") auto
  then show ?thesis using nn by (simp add: Delete_def Let_def)
qed

lemma Insert_success_inv:
  assumes inv: "rope_inv r" and ok: "Insert r line col ru = Some (r', None)"
  shows "rope_inv r'"
proof (cases "0 \<le> line \<and> line < LineCount r")
  case True
  then show ?thesis using Insert_inv [OF inv, of line col ru] ok by auto
next
  case False
  then show ?thesis using Insert_outside [OF inv, of line col ru] ok by auto
qed

lemma Delete_zero:
  assumes inv: "rope_inv r" and line: "0 \<le> line" "line < LineCount r"
    and z: "col = 0 \<and> line = 0 \<or> offsetOf (runes r) line col = 0"
  shows "\<exists>e. Delete r line col = Some (r, Some e)"
proof -
  have nn: "root r \<noteq> Nil" using inv by (auto simp add: rope_inv_def wf_node_not_Nil)
  have line': "line < int (length (lineStarts r))" using line LineCount_inv [OF inv] by simp
  have gi: "getIndex r line col = (offsetOf (runes r) line col, None)"
    using getIndex_inv [OF inv line(1) line'] .
  show ?thesis using z nn gi by (auto simp add: Delete_def Let_def)
qed

lemma Delete_success_inv:
  assumes inv: "rope_inv r" and ok: "Delete r line col = Some (r', None)"
  shows "rope_inv r'"
proof (cases "0 \<le> line \<and> line < LineCount r")
  case True
  show ?thesis
  proof (cases "col = 0 \<and> line = 0 \<or> offsetOf (runes r) line col = 0")
    case True
    then show ?thesis using Delete_zero [OF inv, of line col] \<open>0 \<le> line \<and> line < LineCount r\<close> ok by auto
  next
    case False
    then show ?thesis using Delete_inv [OF inv, of line col] True ok by auto
  qed
next
  case False
  then show ?thesis using Delete_outside [OF inv, of line col] ok by auto
qed

lemma reachable_inv: "reachable r \<Longrightarrow> rope_inv r"
proof (induction rule: reachable.induct)
  case (reachable_new t)
  then show ?case by (rule NewRope_inv)
next
  case (reachable_insert r line col ru r')
  then show ?case using Insert_success_inv by blast
next
  case (reachable_delete r line col r')
  then show ?case using Delete_success_inv by blast
qed

section \<open>The document of a rope and the list model\<close>

lemma validRune_idem: "validRune (validRune r) = validRune r"
  by (simp add: validRune_def)

lemma encodeRune_valid: "encodeRune (validRune r) = encodeRune r"
proof (cases "r < 0 \<or> 1114111 < r \<or> (55296 \<le> r \<and> r \<le> 57343)")
  case True
  have "encodeRune 65533 = [239, 191, 189]" by (simp add: encodeRune_def)
  then show ?thesis using True by (simp add: validRune_bad encodeRune_bad)
next
  case False
  then have "validRune r = r" by (intro validRune_id) auto
  then show ?thesis by simp
qed

lemma runesToString_valid: "runesToString (map validRune rs) = runesToString rs"
  by (induction rs) (simp_all add: runesToString_def encodeRune_valid)

lemma offsetOf_valid: "offsetOf (map validRune c) line col = offsetOf c line col"
  by (simp add: offsetOf_def lineLength_def lineStartsOf_valid)

lemma lineStartsOf_cong:
  "map validRune c = map validRune d \<Longrightarrow> lineStartsOf c = lineStartsOf d"
  by (metis lineStartsOf_valid)

lemma offsetOf_cong:
  "map validRune c = map validRune d \<Longrightarrow> offsetOf c line col = offsetOf d line col"
  by (metis offsetOf_valid)

lemma Insert_doc:
  assumes inv: "rope_inv r" and line: "0 \<le> line" "line < LineCount r"
  shows "\<exists>r'. Insert r line col ru = Some (r', None) \<and> rope_inv r'
      \<and> docString r' = take (nat (offsetOf (docString r) line col)) (docString r) @ validRune ru
                       # drop (nat (offsetOf (docString r) line col)) (docString r)"
proof -
  obtain r' where r': "Insert r line col ru = Some (r', None)" "rope_inv r'"
    "runes r' = take (nat (offsetOf (runes r) line col)) (runes r) @ ru
                       # drop (nat (offsetOf (runes r) line col)) (runes r)
     \<or> runes r' = map validRune (take (nat (offsetOf (runes r) line col)) (runes r) @ ru
                       # drop (nat (offsetOf (runes r) line col)) (runes r))"
    using Insert_inv [OF inv line, of col ru] by blast
  have "docString r' = map validRune (take (nat (offsetOf (runes r) line col)) (runes r) @ ru
                       # drop (nat (offsetOf (runes r) line col)) (runes r))"
    using r'(3) by (auto simp add: docString_def validRune_idem)
  then have "docString r' = take (nat (offsetOf (docString r) line col)) (docString r) @ validRune ru
                       # drop (nat (offsetOf (docString r) line col)) (docString r)"
    by (simp add: docString_def offsetOf_valid take_map drop_map)
  then show ?thesis using r' by blast
qed

lemma Delete_doc:
  assumes inv: "rope_inv r" and line: "0 \<le> line" "line < LineCount r"
    and nz: "\<not> (col = 0 \<and> line = 0)" and pos: "offsetOf (docString r) line col \<noteq> 0"
  shows "\<exists>r'. Delete r line col = Some (r', None) \<and> rope_inv r'
      \<and> docString r' = take (nat (offsetOf (docString r) line col) - 1) (docString r)
                       @ drop (nat (offsetOf (docString r) line col)) (docString r)"
proof -
  have pos': "offsetOf (runes r) line col \<noteq> 0" using pos by (simp add: docString_def offsetOf_valid)
  obtain r' where r': "Delete r line col = Some (r', None)" "rope_inv r'"
    "runes r' = take (nat (offsetOf (runes r) line col) - 1) (runes r)
                       @ drop (nat (offsetOf (runes r) line col)) (runes r)
     \<or> runes r' = map validRune (take (nat (offsetOf (runes r) line col) - 1) (runes r)
                       @ drop (nat (offsetOf (runes r) line col)) (runes r))"
    using Delete_inv [OF inv line nz pos'] by blast
  have "docString r' = map validRune (take (nat (offsetOf (runes r) line col) - 1) (runes r)
                       @ drop (nat (offsetOf (runes r) line col)) (runes r))"
    using r'(3) by (auto simp add: docString_def validRune_idem)
  then have "docString r' = take (nat (offsetOf (docString r) line col) - 1) (docString r)
                       @ drop (nat (offsetOf (docString r) line col)) (docString r)"
    by (simp add: docString_def offsetOf_valid take_map drop_map)
  then show ?thesis using r' by blast
qed

lemma LineCount_doc: "rope_inv r \<Longrightarrow> LineCount r = int (length (lineStartsOf (docString r)))"
  by (simp add: LineCount_inv rope_inv_def docString_def lineStartsOf_valid runes_def)

lemma WriteTo_builder:
  "rope_inv r \<Longrightarrow> WriteTo builderWrite r s
     = ((int (length (runesToString (docString r))), None), s @ runesToString (docString r))"
  by (simp add: WriteTo_def rope_inv_def wf_node_not_Nil writeTo_builder docString_def
      runesToString_valid runes_def)

lemma insertAll_refines:
  assumes "rope_inv r" and "docString r = map validRune doc"
  shows "map_option docString (insertAll r calls) = map_option (map validRune) (specInsertAll doc calls)"
  using assms
proof (induction calls arbitrary: r doc)
  case Nil
  then show ?case by simp
next
  case (Cons op calls)
  obtain line col ru where op: "op = (line, col, ru)" by (cases op) auto
  have lc: "LineCount r = int (length (lineStartsOf doc))"
    using LineCount_doc [OF Cons.prems(1)] Cons.prems(2) by (simp add: lineStartsOf_valid)
  show ?case
  proof (cases "0 \<le> line \<and> line < LineCount r")
    case True
    obtain r' where r': "Insert r line col ru = Some (r', None)" "rope_inv r'"
      "docString r' = take (nat (offsetOf (docString r) line col)) (docString r) @ validRune ru
                       # drop (nat (offsetOf (docString r) line col)) (docString r)"
      using Insert_doc [OF Cons.prems(1), of line col ru] True by blast
    define doc' where "doc' = take (nat (offsetOf doc line col)) doc @ ru # drop (nat (offsetOf doc line col)) doc"
    have s: "specInsert doc line col ru = Some doc'"
      using True lc by (simp add: specInsert_def doc'_def)
    have "docString r' = map validRune doc'"
      using r'(3) Cons.prems(2) by (simp add: doc'_def offsetOf_valid take_map drop_map)
    then have "map_option docString (insertAll r' calls) = map_option (map validRune) (specInsertAll doc' calls)"
      using Cons.IH [OF r'(2)] by simp
    then show ?thesis using r'(1) s op by simp
  next
    case False
    then obtain e where "Insert r line col ru = Some (r, Some e)"
      using Insert_outside [OF Cons.prems(1), of line col ru] by auto
    moreover have "specInsert doc line col ru = None"
      using False lc by (simp add: specInsert_def)
    ultimately show ?thesis using op by simp
  qed
qed

lemma insertAll_inv: "rope_inv r \<Longrightarrow> insertAll r calls = Some r' \<Longrightarrow> rope_inv r'"
proof (induction calls arbitrary: r)
  case Nil
  then show ?case by simp
next
  case (Cons op calls)
  obtain line col ru where op: "op = (line, col, ru)" by (cases op) auto
  from Cons.prems(2) obtain r1 where r1: "Insert r line col ru = Some (r1, None)" "insertAll r1 calls = Some r'"
    unfolding op by (auto split: option.splits prod.splits)
  show ?case using Cons.IH [OF Insert_success_inv [OF Cons.prems(1) r1(1)] r1(2)] .
qed

section \<open>Properties of the rope\<close>

text \<open>
  Claim C4.  In every rope reached from \<open>NewRope\<close> by calls of \<open>Insert\<close> and \<open>Delete\<close>
  that succeed, \<open>LineCount\<close> is one more than the number of newlines (code point 10) the
  document holds, counted in the stored code points and in the document as it is written
  out alike; an empty document has one line, and that line is empty.
\<close>
theorem LineCount_counts_newlines:
  assumes "reachable r"
  shows "LineCount r = 1 + int (count_list (runes r) 10)
       \<and> LineCount r = 1 + int (count_list (docString r) 10)
       \<and> (runes r = [] \<longrightarrow> LineCount r = 1 \<and> GetLine r 0 = Some [])"
proof -
  have inv: "rope_inv r" using assms by (rule reachable_inv)
  have ls: "lineStarts r = lineStartsOf (runes r)" using inv by (simp add: rope_inv_def runes_def)
  have nn: "root r \<noteq> Nil" using inv by (auto simp add: rope_inv_def wf_node_not_Nil)
  have len: "length_node (root r) = int (length (runes r))"
    using inv by (simp add: rope_inv_def runes_def length_node_content)
  have a: "LineCount r = 1 + int (count_list (runes r) 10)"
    using LineCount_inv [OF inv] ls length_lineStartsOf [of "runes r"] by simp
  have b: "LineCount r = 1 + int (count_list (docString r) 10)"
    using LineCount_doc [OF inv] length_lineStartsOf [of "docString r"] by simp
  have c: "runes r = [] \<longrightarrow> GetLine r 0 = Some []"
    using nn ls len by (simp add: GetLine_def lineStartsOf_def slice_def Let_def)
  show ?thesis using a b c by simp
qed

lemma ex_rope1: "Insert (NewRope [104, 105]) 0 1 10
   = Some (\<lparr>root = Leaf [104, 10, 105], lineStarts = [0, 2]\<rparr>, None)"
  by code_simp

theorem LineCount_counts_newlines_witness:
  "reachable \<lparr>root = Leaf [104, 10, 105], lineStarts = [0, 2]\<rparr>
   \<and> LineCount \<lparr>root = Leaf [104, 10, 105], lineStarts = [0, 2]\<rparr> = 2
   \<and> reachable (NewRope []) \<and> LineCount (NewRope []) = 1 \<and> GetLine (NewRope []) 0 = Some []"
proof -
  have r: "reachable \<lparr>root = Leaf [104, 10, 105], lineStarts = [0, 2]\<rparr>"
    using reachable_insert [OF reachable_new ex_rope1] .
  have e: "reachable (NewRope [])" by (rule reachable_new)
  have "runes (NewRope []) = []" by (simp add: NewRope_inv(2))
  then show ?thesis
    using LineCount_counts_newlines [OF r] LineCount_counts_newlines [OF e] r e
    by (simp add: runes_def)
qed

text \<open>
  Claim C5.  A call of \<open>Insert\<close> or \<open>Delete\<close> that returns an error returns the rope it
  was given: root, weights, leaves and \<open>lineStarts\<close> are the ones before the call.
  \<open>Delete\<close> at line 0, column 0 is such a call; it returns the error for the start of the
  document and neither panics nor reports a broken tree.  The rope has a root, as every
  rope built by \<open>NewRope\<close> has; \<open>Insert_error_unchanged\<close> says what \<open>Insert\<close> does to a
  rope without one: it has put an empty leaf in place of the nil root, the document and
  \<open>lineStarts\<close> being the same.
\<close>
theorem failed_mutation_leaves_rope:
  assumes "root r \<noteq> Nil"
  shows "(Insert r line col ru = Some (r', Some e) \<longrightarrow> r' = r)
       \<and> (Delete r line col = Some (r', Some e) \<longrightarrow> r' = r)
       \<and> Delete r 0 0 = Some (r, Some DeleteAtStartOfDocument)"
  using assms Insert_error_unchanged [of r line col ru r' e] Delete_error_unchanged [of r line col r' e]
  by (simp add: Delete_def)

lemma ex_rope2: "Insert (NewRope [104, 105]) 7 0 33
   = Some (NewRope [104, 105], Some (InvalidPosition 7 0 (LineOutOfBounds 7 0)))"
  by code_simp

lemma ex_rope3: "Delete (NewRope [104, 105]) 3 1
   = Some (NewRope [104, 105], Some (InvalidPosition 3 1 (LineOutOfBounds 3 0)))"
  by code_simp

theorem failed_mutation_leaves_rope_witness:
  "root (NewRope [104, 105]) \<noteq> Nil
   \<and> Insert (NewRope [104, 105]) 7 0 33
       = Some (NewRope [104, 105], Some (InvalidPosition 7 0 (LineOutOfBounds 7 0)))
   \<and> Delete (NewRope [104, 105]) 3 1
       = Some (NewRope [104, 105], Some (InvalidPosition 3 1 (LineOutOfBounds 3 0)))
   \<and> Delete (NewRope [104, 105]) 0 0 = Some (NewRope [104, 105], Some DeleteAtStartOfDocument)"
proof -
  have n: "root (NewRope [104, 105]) \<noteq> Nil" by (simp add: NewRope_def rebuildLineIndex_def)
  show ?thesis
    using failed_mutation_leaves_rope [OF n, of 7 0 33 "NewRope [104, 105]" "InvalidPosition 7 0 (LineOutOfBounds 7 0)"]
      n ex_rope2 ex_rope3 by simp
qed

text \<open>
  Claim C7, as stated, fails: \<open>Insert\<close> at the line numbered \<open>LineCount\<close> is refused.
  On the empty document, which has one line, an insertion at line 1 returns the error
  for a line out of bounds and leaves the rope as it was.
\<close>
theorem Insert_at_LineCount_counterexample:
  "LineCount (NewRope []) = 1
   \<and> Insert (NewRope []) 1 0 97 = Some (NewRope [], Some (InvalidPosition 1 0 (LineOutOfBounds 1 0)))"
  by code_simp

text \<open>
  Claim C7, amended.  \<open>Insert\<close> accepts exactly the lines the document has, those from 0
  to \<open>LineCount - 1\<close>: there every column is taken, clamped to
  \<open>[0, length of the line]\<close>, the call succeeds and the code point stands at the clamped
  offset.  Any other line, \<open>LineCount\<close> among them, returns the error for an invalid
  position and the rope it was given.
\<close>
theorem Insert_accepts_existing_lines:
  assumes "reachable r"
  shows "(0 \<le> line \<and> line < LineCount r \<longrightarrow>
            (\<exists>r'. Insert r line col ru = Some (r', None)
               \<and> docString r' = take (nat (offsetOf (docString r) line col)) (docString r)
                    @ validRune ru # drop (nat (offsetOf (docString r) line col)) (docString r)))
       \<and> (line < 0 \<or> LineCount r \<le> line \<longrightarrow>
            (\<exists>e. Insert r line col ru = Some (r, Some (InvalidPosition line col e))))
       \<and> offsetOf (docString r) line col
           = lineStartsOf (docString r) ! nat line + max 0 (min col (lineLength (docString r) line))"
proof -
  have inv: "rope_inv r" using assms by (rule reachable_inv)
  show ?thesis using Insert_doc [OF inv, of line col ru] Insert_outside [OF inv, of line col ru]
    by (auto simp add: offsetOf_def)
qed

lemma ex_rope4: "Insert (NewRope [104, 105]) 0 99 33
   = Some (\<lparr>root = Leaf [104, 105, 33], lineStarts = [0]\<rparr>, None)"
  by code_simp

theorem Insert_accepts_existing_lines_witness:
  "reachable (NewRope [104, 105]) \<and> LineCount (NewRope [104, 105]) = 1
   \<and> Insert (NewRope [104, 105]) 0 99 33 = Some (\<lparr>root = Leaf [104, 105, 33], lineStarts = [0]\<rparr>, None)
   \<and> offsetOf (docString (NewRope [104, 105])) 0 99 = 2
   \<and> (\<exists>e. Insert (NewRope [104, 105]) 1 0 33 = Some (NewRope [104, 105], Some (InvalidPosition 1 0 e)))"
proof -
  have r: "reachable (NewRope [104, 105])" by (rule reachable_new)
  have lc: "LineCount (NewRope [104, 105]) = 1" by code_simp
  have d: "docString (NewRope [104, 105]) = [104, 105]" by code_simp
  have o: "offsetOf [104, 105] 0 99 = 2" by code_simp
  show ?thesis
    using Insert_accepts_existing_lines [OF r, of 1 0 33] r lc d o ex_rope4 by simp
qed

text \<open>
  Claim C8.  Run any list of \<open>Insert\<close> calls on the empty rope and the same list on the
  empty list of code points.  Either some call is refused, in both runs, or all succeed
  and \<open>WriteTo\<close> then writes the UTF-8 encoding of the list, the code points in document
  order, and returns its length in bytes with no error.  Splits of leaves and rebuilds of
  the tree are steps of \<open>Insert\<close> and so are covered.
\<close>
theorem WriteTo_after_inserts:
  "map_option (\<lambda>r. WriteTo builderWrite r []) (insertAll (NewRope []) calls)
   = map_option (\<lambda>doc. ((int (length (runesToString doc)), None), runesToString doc))
       (specInsertAll [] calls)"
proof -
  have inv: "rope_inv (NewRope [])" by (rule NewRope_inv)
  have d: "docString (NewRope []) = map validRune []" by (simp add: docString_def NewRope_inv(2))
  have ref: "map_option docString (insertAll (NewRope []) calls) = map_option (map validRune) (specInsertAll [] calls)"
    using insertAll_refines [OF inv d] .
  show ?thesis
  proof (cases "insertAll (NewRope []) calls")
    case None
    then show ?thesis using ref by simp
  next
    case (Some r)
    then obtain doc where doc: "specInsertAll [] calls = Some doc" "docString r = map validRune doc"
      using ref by (cases "specInsertAll [] calls") auto
    have "rope_inv r" using insertAll_inv [OF inv Some] .
    then show ?thesis using Some doc by (simp add: WriteTo_builder runesToString_valid)
  qed
qed

lemma ex_hello_spec:
  "specInsertAll [] [(0, 0, 104), (0, 1, 101), (0, 2, 108), (0, 3, 108), (0, 4, 111)]
   = Some [104, 101, 108, 108, 111]"
  by code_simp

theorem WriteTo_after_inserts_witness:
  "map_option (\<lambda>r. WriteTo builderWrite r [])
     (insertAll (NewRope []) [(0, 0, 104), (0, 1, 101), (0, 2, 108), (0, 3, 108), (0, 4, 111)])
   = Some ((5, None), [104, 101, 108, 108, 111])"
proof -
  have b: "runesToString [104, 101, 108, 108, 111] = [104, 101, 108, 108, 111]" by code_simp
  show ?thesis
    using WriteTo_after_inserts [of "[(0, 0, 104), (0, 1, 101), (0, 2, 108), (0, 3, 108), (0, 4, 111)]"]
    unfolding ex_hello_spec option.map b by simp
qed

text \<open>
  \<open>writeTo\<close> on two small trees and a sink that runs out of room.  With leaves \<open>a\<close>,
  \<open>b\<close>, \<open>c\<close>, the first two under an inner node, and room for one byte, the write of
  \<open>b\<close> fails: one byte has reached the sink and the count returned is 0.  With leaves
  \<open>ab\<close> and \<open>cd\<close> and room for three bytes, three bytes have reached the sink and the
  count returned is 2.
\<close>

lemma writeTo_small_trees:
  "WriteTo limitedWrite
     \<lparr>root = Internal (Internal (Leaf [97]) (Leaf [98]) 1) (Leaf [99]) 2, lineStarts = [0]\<rparr> ([], 1)
   = ((0, Some (SinkError 0)), ([97], 0))
   \<and> WriteTo limitedWrite \<lparr>root = Internal (Leaf [97, 98]) (Leaf [99, 100]) 2, lineStarts = [0]\<rparr> ([], 3)
   = ((2, Some (SinkError 1)), ([97, 98, 99], 0))"
  by code_simp

lemma runesToString_as: "runesToString (replicate n 97) = replicate n 97"
  by (induction n) (simp_all add: runesToString_def encodeRune_1)

lemma stringToRunes_as: "stringToRunes (replicate n 97) = replicate n 97"
  using stringToRunes_runesToString [of "replicate n 97"]
  by (simp add: runesToString_as validRune_def)

lemma leafLineStarts_as: "leafLineStarts off (replicate n 97) = []"
  by (induction n arbitrary: off) simp_all

lemma NewRope_as: "NewRope (replicate n 97) = \<lparr>root = Leaf (replicate n 97), lineStarts = [0]\<rparr>"
  by (simp add: NewRope_def rebuildLineIndex_def stringToRunes_as leafLineStarts_as)

lemma cons_as: "97 # replicate n (97::int) = replicate (Suc n) 97"
  by simp

lemma updateLineIndexOnInsert_as:
  "updateLineIndexOnInsert \<lparr>root = n, lineStarts = [0]\<rparr> 0 97 = \<lparr>root = n, lineStarts = [0]\<rparr>"
  by (simp add: updateLineIndexOnInsert_def findLine_def SearchInts_def shiftFrom_def)

lemma Insert_as_split:
  "Insert \<lparr>root = Leaf (replicate 1024 97), lineStarts = [0]\<rparr> 0 0 97
   = Some (\<lparr>root = Internal (Leaf (replicate 512 97)) (Leaf (replicate 513 97)) 512, lineStarts = [0]\<rparr>, None)"
proof -
  have gi: "getIndex \<lparr>root = Leaf (replicate 1024 97), lineStarts = [0]\<rparr> 0 0 = (0, None)"
    by (simp add: getIndex_def)
  have ins: "insert_node (Leaf (replicate 1024 97)) 0 97
      = Some (Internal (Leaf (replicate 512 97)) (Leaf (replicate 513 97)) 512)"
    by (simp add: maxLeafSize_def Let_def cons_as del: replicate_Suc replicate.simps)
  show ?thesis
    by (simp add: Insert_def gi ins updateLineIndexOnInsert_as shouldRebalance_def del: insert_node.simps)
qed

lemma Insert_as_grow:
  assumes "512 \<le> n" and "n < 1024"
  shows "Insert \<lparr>root = Internal (Leaf (replicate n 97)) (Leaf (replicate 513 97)) (int n), lineStarts = [0]\<rparr> 0 0 97
   = Some (\<lparr>root = Internal (Leaf (replicate (Suc n) 97)) (Leaf (replicate 513 97)) (int (Suc n)),
            lineStarts = [0]\<rparr>, None)"
proof -
  have gi: "getIndex \<lparr>root = Internal (Leaf (replicate n 97)) (Leaf (replicate 513 97)) (int n), lineStarts = [0]\<rparr> 0 0
      = (0, None)"
    by (simp add: getIndex_def)
  have ins: "insert_node (Internal (Leaf (replicate n 97)) (Leaf (replicate 513 97)) (int n)) 0 97
      = Some (Internal (Leaf (replicate (Suc n) 97)) (Leaf (replicate 513 97)) (int (Suc n)))"
    using assms by (simp add: maxLeafSize_def Let_def)
  show ?thesis
    using assms by (simp add: Insert_def gi ins updateLineIndexOnInsert_as shouldRebalance_def del: insert_node.simps)
qed

lemma Insert_as_split2:
  "Insert \<lparr>root = Internal (Leaf (replicate 1024 97)) (Leaf (replicate 513 97)) 1024, lineStarts = [0]\<rparr> 0 0 97
   = Some (\<lparr>root = Internal (Internal (Leaf (replicate 512 97)) (Leaf (replicate 513 97)) 512)
                     (Leaf (replicate 513 97)) 1025, lineStarts = [0]\<rparr>, None)"
proof -
  have gi: "getIndex \<lparr>root = Internal (Leaf (replicate 1024 97)) (Leaf (replicate 513 97)) 1024, lineStarts = [0]\<rparr> 0 0
      = (0, None)"
    by (simp add: getIndex_def)
  have ins0: "insert_node (Leaf (replicate 1024 97)) 0 97
      = Some (Internal (Leaf (replicate 512 97)) (Leaf (replicate 513 97)) 512)"
    by (simp add: maxLeafSize_def Let_def cons_as del: replicate_Suc replicate.simps)
  have ins: "insert_node (Internal (Leaf (replicate 1024 97)) (Leaf (replicate 513 97)) 1024) 0 97
      = Some (Internal (Internal (Leaf (replicate 512 97)) (Leaf (replicate 513 97)) 512)
                (Leaf (replicate 513 97)) 1025)"
    by (simp add: ins0 del: insert_node.simps(2))
  show ?thesis
    by (simp add: Insert_def gi ins updateLineIndexOnInsert_as shouldRebalance_def del: insert_node.simps)
qed

lemma insertAll_as_grow:
  assumes "512 \<le> n" and "n + m \<le> 1024"
  shows "insertAll \<lparr>root = Internal (Leaf (replicate n 97)) (Leaf (replicate 513 97)) (int n), lineStarts = [0]\<rparr>
           (replicate m (0, 0, 97) @ calls)
   = insertAll \<lparr>root = Internal (Leaf (replicate (n + m) 97)) (Leaf (replicate 513 97)) (int (n + m)),
                 lineStarts = [0]\<rparr> calls"
  using assms
proof (induction m arbitrary: n)
  case 0
  then show ?case by simp
next
  case (Suc m)
  have n: "n < 1024" using Suc.prems by simp
  have "512 \<le> Suc n" "Suc n + m \<le> 1024" using Suc.prems by simp_all
  from Suc.IH [OF this] show ?case
    by (simp add: Insert_as_grow [OF Suc.prems(1) n])
qed

lemma insertAll_as:
  "insertAll (NewRope (replicate 1024 97)) (replicate 514 (0, 0, 97))
   = Some \<lparr>root = Internal (Internal (Leaf (replicate 512 97)) (Leaf (replicate 513 97)) 512)
                    (Leaf (replicate 513 97)) 1025, lineStarts = [0]\<rparr>"
proof -
  have s: "replicate 514 (0::int, 0::int, 97::int) = (0, 0, 97) # (replicate 512 (0, 0, 97) @ [(0, 0, 97)])"
    by (simp add: replicate_append_same numeral_eq_Suc del: replicate.simps) (simp add: numeral_eq_Suc)
  show ?thesis
    unfolding s NewRope_as
    using insertAll_as_grow [of 512 512 "[(0, 0, 97)]"]
    by (simp add: Insert_as_split Insert_as_split2)
qed

text \<open>
  Claim C6 at a rope the public calls build and a sink that runs out of room.  A document
  of 1024 letters \<open>a\<close> and 514 insertions of \<open>a\<close> at its start give a tree of three leaves,
  of 512, 513 and 513 letters, the first two under an inner node.  Written to a sink with
  room for 512 bytes, the first leaf goes through and the second is refused, no byte of it
  taken: 512 bytes have reached the sink, and \<open>WriteTo\<close> returns the error with the count
  0.  The inner node returns 512 with the error, and its parent, seeing the error, returns
  its own total before adding that count.
\<close>

theorem WriteTo_drops_count_on_error:
  "insertAll (NewRope (replicate 1024 97)) (replicate 514 (0, 0, 97))
   = Some \<lparr>root = Internal (Internal (Leaf (replicate 512 97)) (Leaf (replicate 513 97)) 512)
                    (Leaf (replicate 513 97)) 1025, lineStarts = [0]\<rparr>
   \<and> writeTo limitedWrite (Internal (Leaf (replicate 512 97)) (Leaf (replicate 513 97)) 512) ([], 512)
       = ((512, Some (SinkError 0)), (replicate 512 97, 0))
   \<and> WriteTo limitedWrite
         \<lparr>root = Internal (Internal (Leaf (replicate 512 97)) (Leaf (replicate 513 97)) 512)
                    (Leaf (replicate 513 97)) 1025, lineStarts = [0]\<rparr> ([], 512)
       = ((0, Some (SinkError 0)), (replicate 512 97, 0))"
proof -
  have w: "writeTo limitedWrite (Internal (Leaf (replicate 512 97)) (Leaf (replicate 513 97)) 512) ([], 512)
           = ((512, Some (SinkError 0)), (replicate 512 97, 0))"
    by (simp add: limitedWrite_def runesToString_as)
  show ?thesis
    using w by (simp add: insertAll_as WriteTo_def)
qed

lemma runesToString_append: "runesToString (a @ b) = runesToString a @ runesToString b"
  by (simp add: runesToString_def)

lemma take_drop_append:
  "take (E - S) (drop S (a @ b))
   = take (E - S) (drop S a) @ take ((E - length a) - (S - length a)) (drop (S - length a) b)"
proof (cases "S \<le> length a")
  case True
  then show ?thesis by (cases "E \<le> length a") (simp_all add: min_def)
next
  case False
  then show ?thesis by simp
qed

lemma sliceHelper_content:
  "wf_node n \<Longrightarrow>
   sliceHelper n s e off res
   = Some (res @ runesToString (take (nat (e - off) - nat (s - off)) (drop (nat (s - off)) (content n))))"
proof (induction n arbitrary: off res)
  case Nil
  then show ?case by simp
next
  case (Leaf d)
  show ?case
  proof (cases "max 0 (s - off) < min (int (length d)) (e - off)")
    case True
    then have "take (nat (min (int (length d)) (e - off)) - nat (max 0 (s - off))) (drop (nat (max 0 (s - off))) d)
        = take (nat (e - off) - nat (s - off)) (drop (nat (s - off)) d)"
      by (cases "int (length d) \<le> e - off") (simp_all add: min_def max_def)
    then show ?thesis using True by (simp add: Let_def)
  next
    case False
    then have em: "take (nat (e - off) - nat (s - off)) (drop (nat (s - off)) d) = []"
      by (auto simp add: min_def max_def split: if_splits)
    show ?thesis
      by (simp only: sliceHelper.simps Let_def content.simps em False if_False)
        (simp add: runesToString_def)
  qed
next
  case (Internal l r w)
  have wl: "wf_node l" and wr: "wf_node r" and w: "w = int (length (content l))"
    using Internal.prems by simp_all
  define S where "S = nat (s - off)"
  define E where "E = nat (e - off)"
  have r1: "nat (e - (off + w)) = E - length (content l)" "nat (s - (off + w)) = S - length (content l)"
    by (simp_all add: E_def S_def w nat_diff_distrib')
  have left: "(if s < off + w \<and> off < e then sliceHelper l s e off res else Some res)
      = Some (res @ runesToString (take (E - S) (drop S (content l))))"
  proof (cases "s < off + w \<and> off < e")
    case True
    then show ?thesis using Internal.IH(1) [OF wl] by (simp add: S_def E_def)
  next
    case False
    then have em: "take (E - S) (drop S (content l)) = []"
      by (auto simp add: S_def E_def w)
    show ?thesis by (simp only: em False if_False) (simp add: runesToString_def)
  qed
  have right: "\<And>res1. (if e > off + w \<and> off + w < e then sliceHelper r s e (off + w) res1 else Some res1)
      = Some (res1 @ runesToString (take ((E - length (content l)) - (S - length (content l)))
                 (drop (S - length (content l)) (content r))))"
  proof -
    fix res1
    show "(if e > off + w \<and> off + w < e then sliceHelper r s e (off + w) res1 else Some res1)
      = Some (res1 @ runesToString (take ((E - length (content l)) - (S - length (content l)))
                 (drop (S - length (content l)) (content r))))"
    proof (cases "off + w < e")
      case True
      then show ?thesis using Internal.IH(2) [OF wr] by (simp add: r1)
    next
      case False
      then have em: "E - length (content l) = 0" by (simp add: E_def w)
      have c: "\<not> (e > off + w \<and> off + w < e)" using False by simp
      show ?thesis by (simp only: em c if_False) (simp add: runesToString_def)
    qed
  qed
  show ?case
    unfolding sliceHelper.simps Let_def left option.case right content.simps
      S_def [symmetric] E_def [symmetric]
    by (simp only: take_drop_append [of E S] runesToString_append append_assoc)
qed

lemma leafLineStarts_nth:
  "x \<in> set (leafLineStarts off c) \<Longrightarrow> c ! nat (x - off - 1) = 10"
proof (induction c arbitrary: off)
  case Nil
  then show ?case by simp
next
  case (Cons a c)
  show ?case
  proof (cases "x = off + 1 \<and> a = 10")
    case True
    then show ?thesis by simp
  next
    case False
    then have m: "x \<in> set (leafLineStarts (off + 1) c)" using Cons.prems by (auto split: if_splits)
    have "off + 1 < x" using leafLineStarts_bounds [OF m] by simp
    then have "nat (x - off - 1) = Suc (nat (x - (off + 1) - 1))" by simp
    then show ?thesis using Cons.IH [OF m] by simp
  qed
qed

lemma newline_in_leafLineStarts:
  "i < length c \<Longrightarrow> c ! i = 10 \<Longrightarrow> off + int i + 1 \<in> set (leafLineStarts off c)"
proof (induction c arbitrary: off i)
  case Nil
  then show ?case by simp
next
  case (Cons a c)
  show ?case
  proof (cases i)
    case 0
    then show ?thesis using Cons.prems by simp
  next
    case (Suc j)
    then have "off + 1 + int j + 1 \<in> set (leafLineStarts (off + 1) c)"
      using Cons.prems Cons.IH [of j "off + 1"] by simp
    then show ?thesis using Suc by simp
  qed
qed

lemma lineStartsOf_nth_newline:
  assumes "0 \<le> line" "line + 1 < int (length (lineStartsOf c))"
  shows "c ! nat (lineStartsOf c ! nat (line + 1) - 1) = 10"
    and "lineStartsOf c ! nat line < lineStartsOf c ! nat (line + 1)"
    and "lineStartsOf c ! nat (line + 1) \<le> int (length c)"
    and "0 \<le> lineStartsOf c ! nat line"
proof -
  have n: "nat (line + 1) = Suc (nat line)" using assms by simp
  have m: "lineStartsOf c ! nat (line + 1) \<in> set (leafLineStarts 0 c)"
    using assms by (simp add: lineStartsOf_def n)
  show "c ! nat (lineStartsOf c ! nat (line + 1) - 1) = 10"
    using leafLineStarts_nth [OF m] by simp
  have "nat line < nat (line + 1)" "nat (line + 1) < length (lineStartsOf c)" using assms by simp_all
  then show "lineStartsOf c ! nat line < lineStartsOf c ! nat (line + 1)"
    using lineStartsOf_sorted [of c] by (simp add: sorted_wrt_iff_nth_less)
  show "lineStartsOf c ! nat (line + 1) \<le> int (length c)"
    using leafLineStarts_bounds [OF m] by simp
  have "lineStartsOf c ! nat line \<in> set (lineStartsOf c)" using assms by simp
  then show "0 \<le> lineStartsOf c ! nat line" using lineStartsOf_bounds by blast
qed

lemma last_line_no_newline:
  assumes "0 \<le> line" "line + 1 = int (length (lineStartsOf c))"
    and "lineStartsOf c ! nat line < int (length c)"
  shows "c ! (length c - 1) \<noteq> 10"
proof
  assume nl: "c ! (length c - 1) = 10"
  have pos: "0 < length c"
    using assms lineStartsOf_bounds [of "lineStartsOf c ! nat line" c] by auto
  then have "0 + int (length c - 1) + 1 \<in> set (leafLineStarts 0 c)"
    using newline_in_leafLineStarts [of "length c - 1" c 0] nl by simp
  then have "int (length c) \<in> set (lineStartsOf c)" using pos by (simp add: lineStartsOf_def of_nat_diff)
  then obtain j where j: "j < length (lineStartsOf c)" "lineStartsOf c ! j = int (length c)"
    by (auto simp add: in_set_conv_nth)
  have "j \<le> nat line" using j(1) assms(1,2) by simp
  then have "lineStartsOf c ! j \<le> lineStartsOf c ! nat line"
    using lineStartsOf_sorted [of c] assms(1,2)
    by (cases "j = nat line") (simp_all add: sorted_wrt_iff_nth_less less_imp_le)
  then show False using j(2) assms(3) by simp
qed

lemma GetLine_inv:
  assumes inv: "rope_inv r" and line: "0 \<le> line" "line < int (length (lineStarts r))"
  shows "GetLine r line = Some (runesToString (lineText (runes r) line))"
proof -
  define c where "c = runes r"
  have nn: "root r \<noteq> Nil" using inv by (auto simp add: rope_inv_def wf_node_not_Nil)
  have wf: "wf_node (root r)" using inv by (simp add: rope_inv_def)
  have ls: "lineStarts r = lineStartsOf c" using inv by (simp add: rope_inv_def runes_def c_def)
  have len: "length_node (root r) = int (length c)"
    using wf by (simp add: c_def runes_def length_node_content)
  have cc: "content (root r) = c" by (simp add: c_def runes_def)
  define st where "st = lineStartsOf c ! nat line"
  define k where "k = lineLength c line"
  have st0: "0 \<le> st" "st \<le> int (length c)"
    using lineStartsOf_bounds [of st c] line ls by (simp_all add: st_def)
  have k0: "0 \<le> k" using lineLength_nonneg [of line c] line ls by (simp add: k_def)
  have up: "st + k \<le> int (length c)"
    using offsetOf_bounds [of line c k] line ls k0 by (simp add: offsetOf_def k_def st_def)
  have sl: "\<And>en. slice r st en = Some (runesToString (take (nat (en - st)) (drop (nat st) c)))"
  proof -
    fix en
    show "slice r st en = Some (runesToString (take (nat (en - st)) (drop (nat st) c)))"
    proof (cases "st \<ge> en")
      case True
      then show ?thesis by (simp add: slice_def runesToString_def)
    next
      case False
      then have "nat en - nat st = nat (en - st)" using st0 by simp
      then show ?thesis using False nn st0 sliceHelper_content [OF wf, of st en 0 "[]"]
        by (simp add: slice_def cc)
    qed
  qed
  have ra: "\<And>i. 0 \<le> i \<Longrightarrow> i < int (length c) \<Longrightarrow> sliceRuneAt r i = Inr (c ! nat i)"
    using runeAt_content [OF wf] nn by (simp add: sliceRuneAt_def len cc)
  define t where "t = take (nat k) (drop (nat st) c)"
  have tl: "length t = nat k" using up st0 k0 by (simp add: t_def)
  have tlast: "0 < k \<Longrightarrow> last t = c ! nat (st + k - 1)"
  proof -
    assume kp: "0 < k"
    then have "t \<noteq> []" using tl by auto
    then have "last t = t ! (nat k - 1)" using tl by (simp add: last_conv_nth)
    also have "\<dots> = c ! (nat st + (nat k - 1))" using kp up st0 by (simp add: t_def)
    also have "nat st + (nat k - 1) = nat (st + k - 1)" using kp st0 by simp
    finally show "last t = c ! nat (st + k - 1)" .
  qed
  have tbut: "butlast t = take (nat (k - 1)) (drop (nat st) c)"
  proof -
    have "nat k \<le> length (drop (nat st) c)" using up st0 k0 by simp
    then show ?thesis using k0 by (simp add: t_def butlast_take nat_diff_distrib')
  qed
  show ?thesis
  proof (cases "line + 1 < int (length (lineStartsOf c))")
    case True
    define en where "en = lineStartsOf c ! nat (line + 1)"
    have ek: "en = st + k + 1" using True by (simp add: en_def k_def lineLength_def st_def)
    have nl: "c ! nat (en - 1) = 10" and en_le: "en \<le> int (length c)"
      using lineStartsOf_nth_newline [OF line(1) True] by (simp_all add: en_def)
    have r10: "sliceRuneAt r (en - 1) = Inr 10"
      using ra [of "en - 1"] nl en_le ek st0 k0 by simp
    have r13: "0 < k \<Longrightarrow> sliceRuneAt r (en - 1 - 1) = Inr (last t)"
      using ra [of "en - 1 - 1"] tlast en_le ek st0 by simp
    have tne: "(t \<noteq> []) = (0 < k)"
    proof -
      have "(t \<noteq> []) = (0 < length t)" by simp
      then show ?thesis using k0 by (simp only: tl) simp
    qed
    have g: "GetLine r line
        = slice r st (if en - 1 > st \<and> sliceRuneAt r (en - 1 - 1) = Inr 13 then en - 1 - 1 else en - 1)"
      using nn line True r10 ek k0
      by (simp add: GetLine_def ls Let_def st_def [symmetric] en_def [symmetric])
    show ?thesis
    proof (cases "0 < k \<and> last t = 13")
      case True
      then have "GetLine r line = slice r st (en - 1 - 1)" using g r13 ek by simp
      also have "\<dots> = Some (runesToString (butlast t))"
        using sl [of "en - 1 - 1"] ek by (simp add: tbut)
      finally show ?thesis
        using True \<open>line + 1 < int (length (lineStartsOf c))\<close> tne
        by (simp add: lineText_def c_def [symmetric] k_def [symmetric] st_def [symmetric]
            t_def [symmetric] Let_def)
    next
      case False
      then have "GetLine r line = slice r st (en - 1)" using g r13 ek by auto
      also have "\<dots> = Some (runesToString t)"
        using sl [of "en - 1"] ek by (simp add: t_def)
      finally show ?thesis
        using False tne
        by (auto simp add: lineText_def c_def [symmetric] k_def [symmetric] st_def [symmetric]
            t_def [symmetric] Let_def)
    qed
  next
    case False
    then have last: "line + 1 = int (length (lineStartsOf c))" using line ls by simp
    have ek: "int (length c) = st + k" using False by (simp add: k_def lineLength_def st_def)
    have no10: "\<not> (int (length c) > st \<and> sliceRuneAt r (int (length c) - 1) = Inr 10)"
    proof
      assume a: "int (length c) > st \<and> sliceRuneAt r (int (length c) - 1) = Inr 10"
      then have "c \<noteq> []" using st0 by auto
      then have "c ! nat (int (length c) - 1) = 10" using ra [of "int (length c) - 1"] a by simp
      moreover have "nat (int (length c) - 1) = length c - 1" by simp
      ultimately show False
        using last_line_no_newline [OF line(1) last] a by (simp add: st_def)
    qed
    have "GetLine r line = slice r st (int (length c))"
      using nn line False no10
      by (auto simp add: GetLine_def ls Let_def st_def [symmetric] len)
    also have "\<dots> = Some (runesToString t)"
      using sl [of "int (length c)"] ek by (simp add: t_def)
    finally show ?thesis
      using False
      by (simp add: lineText_def c_def [symmetric] k_def [symmetric] st_def [symmetric]
          t_def [symmetric] Let_def)
  qed
qed

lemma lineText_valid: "lineText (map validRune c) line = map validRune (lineText c line)"
proof -
  have v: "\<And>x. (validRune x = 13) = (x = 13)" by (auto simp add: validRune_def)
  define t where "t = take (nat (lineLength c line)) (drop (nat (lineStartsOf c ! nat line)) c)"
  have l: "lineLength (map validRune c) line = lineLength c line"
    by (simp add: lineLength_def lineStartsOf_valid)
  have m: "take (nat (lineLength c line)) (drop (nat (lineStartsOf c ! nat line)) (map validRune c))
      = map validRune t"
    by (simp add: t_def take_map drop_map)
  have "t \<noteq> [] \<Longrightarrow> (last (map validRune t) = 13) = (last t = 13)" by (simp add: last_map v)
  then show ?thesis
    unfolding lineText_def l lineStartsOf_valid m Let_def t_def [symmetric]
    by (auto simp add: map_butlast)
qed

lemma GetLine_doc:
  assumes "rope_inv r" and "0 \<le> line" and "line < LineCount r"
  shows "GetLine r line = Some (runesToString (lineText (docString r) line))"
  using GetLine_inv [OF assms(1,2)] assms(3) LineCount_inv [OF assms(1)]
  by (simp add: docString_def lineText_valid runesToString_valid)

lemma length_lineText:
  "0 \<le> lineLength c line \<Longrightarrow> lineStartsOf c ! nat line + lineLength c line \<le> int (length c) \<Longrightarrow>
   0 \<le> lineStartsOf c ! nat line \<Longrightarrow>
   lineLength c line - 1 \<le> int (length (lineText c line))
   \<and> int (length (lineText c line)) \<le> lineLength c line"
proof -
  assume a: "0 \<le> lineLength c line"
    "lineStartsOf c ! nat line + lineLength c line \<le> int (length c)"
    "0 \<le> lineStartsOf c ! nat line"
  define t where "t = take (nat (lineLength c line)) (drop (nat (lineStartsOf c ! nat line)) c)"
  have lt: "length t = nat (lineLength c line)" using a by (simp add: t_def)
  have "length (lineText c line) = length t \<or> length (lineText c line) = length t - 1"
    by (simp add: lineText_def Let_def t_def [symmetric])
  then show ?thesis using a(1) unfolding lt by auto
qed

text \<open>
  Claim C10, as stated, fails where the line ends in CR LF and where the column is
  negative.  In the document \<open>ab CR LF cd\<close> the text of line 0 is \<open>ab\<close>, two characters, yet
  \<open>Delete(0, 9)\<close> removes the carriage return while \<open>Delete(0, 2)\<close> removes \<open>b\<close>.  In the
  document \<open>ab\<close>, \<open>Delete(0, -1)\<close> and \<open>Delete(0, 0)\<close> both fail, each with an error of its
  own.
\<close>

theorem Delete_column_counterexample:
  "GetLine (NewRope [97, 98, 13, 10, 99, 100]) 0 = Some [97, 98]
   \<and> Delete (NewRope [97, 98, 13, 10, 99, 100]) 0 9
       = Some (\<lparr>root = Leaf [97, 98, 10, 99, 100], lineStarts = [0, 3]\<rparr>, None)
   \<and> Delete (NewRope [97, 98, 13, 10, 99, 100]) 0 2
       = Some (\<lparr>root = Leaf [97, 13, 10, 99, 100], lineStarts = [0, 3]\<rparr>, None)
   \<and> Delete (NewRope [97, 98]) 0 (- 1) = Some (NewRope [97, 98], Some NothingToDeleteAtStart)
   \<and> Delete (NewRope [97, 98]) 0 0 = Some (NewRope [97, 98], Some DeleteAtStartOfDocument)"
  by code_simp

text \<open>
  Claim C10, amended.  Let \<open>k \<ge> 1\<close> be the number of code points a line of a reachable rope
  holds before its newline, the bound \<open>getIndex\<close> clamps a column to.  It counts a carriage
  return that stands before the newline, which \<open>GetLine\<close> leaves out of the text of the
  line, so the text has \<open>k\<close> or \<open>k - 1\<close> code points.  \<open>Delete\<close> with a column beyond \<open>k\<close>
  is \<open>Delete\<close> at column \<open>k\<close>, which removes the last of the \<open>k\<close> code points.  A negative
  column resolves to the offset of column 0: on a line after the first \<open>Delete\<close> is then
  \<open>Delete\<close> at column 0; on line 0 both fail and return the rope they were given, column
  0 with the error for the start of the document and a negative column with the error
  that nothing is there to delete.  These are all the failures: \<open>Delete\<close> succeeds exactly
  when the column is at least 1 or the line is not the first, and no column is refused
  for being out of range.
\<close>

theorem Delete_clamps_column:
  assumes "reachable r" and "0 \<le> line" and "line < LineCount r"
    and "1 \<le> lineLength (docString r) line"
  shows "(lineLength (docString r) line < c \<longrightarrow>
            Delete r line c = Delete r line (lineLength (docString r) line))
       \<and> (\<exists>r'. Delete r line (lineLength (docString r) line) = Some (r', None)
             \<and> docString r' =
                 take (nat (lineStartsOf (docString r) ! nat line + lineLength (docString r) line) - 1)
                   (docString r)
                 @ drop (nat (lineStartsOf (docString r) ! nat line + lineLength (docString r) line))
                   (docString r))
       \<and> (c < 0 \<and> 0 < line \<longrightarrow> Delete r line c = Delete r line 0)
       \<and> (c < 0 \<and> line = 0 \<longrightarrow> Delete r line c = Some (r, Some NothingToDeleteAtStart))
       \<and> (line = 0 \<longrightarrow> Delete r line 0 = Some (r, Some DeleteAtStartOfDocument))
       \<and> ((\<exists>r'. Delete r line c = Some (r', None)) = (1 \<le> c \<or> 0 < line))
       \<and> GetLine r line = Some (runesToString (lineText (docString r) line))
       \<and> lineLength (docString r) line - 1 \<le> int (length (lineText (docString r) line))
       \<and> int (length (lineText (docString r) line)) \<le> lineLength (docString r) line"
proof -
  have inv: "rope_inv r" using assms(1) by (rule reachable_inv)
  define k where "k = lineLength (docString r) line"
  have k1: "1 \<le> k" using assms(4) by (simp add: k_def)
  have line': "line < int (length (lineStarts r))" using assms(3) LineCount_inv [OF inv] by simp
  have lined: "line < int (length (lineStartsOf (docString r)))"
    using assms(3) LineCount_doc [OF inv] by simp
  have gi: "\<And>col. getIndex r line col = (offsetOf (runes r) line col, None)"
    using getIndex_inv [OF inv assms(2) line'] .
  have nn: "root r \<noteq> Nil" using inv by (auto simp add: rope_inv_def wf_node_not_Nil)
  have s0: "0 \<le> lineStartsOf (docString r) ! nat line"
    using lineStartsOf_bounds [of "lineStartsOf (docString r) ! nat line" "docString r"]
      lined assms(2) by simp
  have off: "\<And>col. offsetOf (docString r) line col = lineStartsOf (docString r) ! nat line + max 0 (min col k)"
    by (simp add: offsetOf_def k_def)
  have offr: "\<And>col. offsetOf (runes r) line col = offsetOf (docString r) line col"
    by (simp add: docString_def offsetOf_valid)
  have a: "k < c \<longrightarrow> Delete r line c = Delete r line k"
  proof
    assume "k < c"
    then have "offsetOf (runes r) line c = offsetOf (runes r) line k" "c \<noteq> 0" "k \<noteq> 0"
      using k1 by (simp_all add: offr off)
    then show "Delete r line c = Delete r line k" using gi by (simp add: Delete_def)
  qed
  have b1: "c < 0 \<and> 0 < line \<longrightarrow> Delete r line c = Delete r line 0"
  proof
    assume c: "c < 0 \<and> 0 < line"
    then have "offsetOf (runes r) line c = offsetOf (runes r) line 0" using k1 by (simp add: offr off)
    then show "Delete r line c = Delete r line 0" using c gi by (simp add: Delete_def)
  qed
  have z: "line = 0 \<Longrightarrow> lineStartsOf (docString r) ! nat line = 0" by (simp add: lineStartsOf_def)
  have b2: "c < 0 \<and> line = 0 \<longrightarrow> Delete r line c = Some (r, Some NothingToDeleteAtStart)"
  proof
    assume c: "c < 0 \<and> line = 0"
    have "offsetOf (runes r) line c = lineStartsOf (docString r) ! nat line + max 0 (min c k)"
      by (simp only: offr off)
    then have "offsetOf (runes r) line c = 0" using c k1 z by simp
    then have "getIndex r line c = (0, None)" using gi [of c] by simp
    then show "Delete r line c = Some (r, Some NothingToDeleteAtStart)"
      using c nn by (simp add: Delete_def)
  qed
  have b3: "line = 0 \<longrightarrow> Delete r line 0 = Some (r, Some DeleteAtStartOfDocument)"
    using nn by (simp add: Delete_def)
  have pos: "\<And>col. 1 \<le> col \<or> 0 < line \<Longrightarrow> offsetOf (docString r) line col \<noteq> 0 \<and> \<not> (col = 0 \<and> line = 0)"
  proof -
    fix col :: int assume h: "1 \<le> col \<or> 0 < line"
    show "offsetOf (docString r) line col \<noteq> 0 \<and> \<not> (col = 0 \<and> line = 0)"
    proof (cases "1 \<le> col")
      case True
      then have "1 \<le> max 0 (min col k)" using k1 by simp
      then show ?thesis using s0 True by (simp add: off)
    next
      case False
      then have l: "0 < line" using h by simp
      have "nat 0 < nat line" "nat line < length (lineStartsOf (docString r))"
        using l lined by simp_all
      then have "lineStartsOf (docString r) ! nat 0 < lineStartsOf (docString r) ! nat line"
        using lineStartsOf_sorted [of "docString r"] by (simp add: sorted_wrt_iff_nth_less)
      then have "0 < lineStartsOf (docString r) ! nat line" by (simp add: lineStartsOf_def)
      moreover have "0 \<le> max 0 (min col k)" by simp
      ultimately show ?thesis using l by (simp add: off)
    qed
  qed
  have d1: "1 \<le> c \<or> 0 < line \<Longrightarrow> \<exists>r'. Delete r line c = Some (r', None)"
    using Delete_doc [OF inv assms(2,3), of c] pos [of c] by blast
  have d2: "\<exists>r'. Delete r line c = Some (r', None) \<Longrightarrow> 1 \<le> c \<or> 0 < line"
  proof (rule ccontr)
    assume ex: "\<exists>r'. Delete r line c = Some (r', None)" and n: "\<not> (1 \<le> c \<or> 0 < line)"
    then have l0: "line = 0" and c0: "c \<le> 0" using assms(2) by simp_all
    show False
    proof (cases "c = 0")
      case True
      then show ?thesis using ex b3 l0 by simp
    next
      case False
      then have "c < 0 \<and> line = 0" using c0 l0 by simp
      then show ?thesis using ex b2 by simp
    qed
  qed
  have d: "(\<exists>r'. Delete r line c = Some (r', None)) = (1 \<le> c \<or> 0 < line)"
    using d1 d2 by blast
  have "offsetOf (docString r) line k \<noteq> 0 \<and> \<not> (k = 0 \<and> line = 0)" using pos [of k] k1 by simp
  then obtain r' where r': "Delete r line k = Some (r', None)"
    "docString r' = take (nat (offsetOf (docString r) line k) - 1) (docString r)
                       @ drop (nat (offsetOf (docString r) line k)) (docString r)"
    using Delete_doc [OF inv assms(2,3), of k] by blast
  have "offsetOf (docString r) line k = lineStartsOf (docString r) ! nat line + k"
    using k1 by (simp add: off)
  then have e: "\<exists>r'. Delete r line k = Some (r', None)
             \<and> docString r' = take (nat (lineStartsOf (docString r) ! nat line + k) - 1) (docString r)
                 @ drop (nat (lineStartsOf (docString r) ! nat line + k)) (docString r)"
    using r' by simp
  have g: "GetLine r line = Some (runesToString (lineText (docString r) line))"
    using GetLine_doc [OF inv assms(2,3)] .
  have up: "lineStartsOf (docString r) ! nat line + k \<le> int (length (docString r))"
    using offsetOf_bounds [OF assms(2) lined, of k] k1 by (simp add: off)
  have lt: "k - 1 \<le> int (length (lineText (docString r) line))
      \<and> int (length (lineText (docString r) line)) \<le> k"
    using length_lineText [of "docString r" line] k1 up s0 by (simp add: k_def)
  show ?thesis using a e b1 b2 b3 d g lt unfolding k_def by blast
qed

lemma ex_rope5: "Delete (NewRope [97, 98, 13, 10, 99, 100]) 0 9
   = Some (\<lparr>root = Leaf [97, 98, 10, 99, 100], lineStarts = [0, 3]\<rparr>, None)"
  by code_simp

lemma ex_rope6: "Delete (NewRope [97, 98, 13, 10, 99, 100]) 1 0
   = Some (\<lparr>root = Leaf [97, 98, 13, 99, 100], lineStarts = [0]\<rparr>, None)"
  by code_simp

theorem Delete_clamps_column_witness:
  "reachable (NewRope [97, 98, 13, 10, 99, 100]) \<and> (0::int) \<le> 0
   \<and> 1 < LineCount (NewRope [97, 98, 13, 10, 99, 100])
   \<and> lineLength (docString (NewRope [97, 98, 13, 10, 99, 100])) 0 = 3
   \<and> lineLength (docString (NewRope [97, 98, 13, 10, 99, 100])) 1 = 2
   \<and> Delete (NewRope [97, 98, 13, 10, 99, 100]) 0 3
       = Some (\<lparr>root = Leaf [97, 98, 10, 99, 100], lineStarts = [0, 3]\<rparr>, None)
   \<and> Delete (NewRope [97, 98, 13, 10, 99, 100]) 0 0
       = Some (NewRope [97, 98, 13, 10, 99, 100], Some DeleteAtStartOfDocument)
   \<and> Delete (NewRope [97, 98, 13, 10, 99, 100]) 0 (- 1)
       = Some (NewRope [97, 98, 13, 10, 99, 100], Some NothingToDeleteAtStart)
   \<and> Delete (NewRope [97, 98, 13, 10, 99, 100]) 1 (- 1)
       = Some (\<lparr>root = Leaf [97, 98, 13, 99, 100], lineStarts = [0]\<rparr>, None)
   \<and> GetLine (NewRope [97, 98, 13, 10, 99, 100]) 0 = Some [97, 98]"
proof -
  have r: "reachable (NewRope [97, 98, 13, 10, 99, 100])" by (rule reachable_new)
  have lc: "LineCount (NewRope [97, 98, 13, 10, 99, 100]) = 2" by code_simp
  have d: "docString (NewRope [97, 98, 13, 10, 99, 100]) = [97, 98, 13, 10, 99, 100]" by code_simp
  have l0: "lineLength [97, 98, 13, 10, 99, 100] 0 = 3" by code_simp
  have l1: "lineLength [97, 98, 13, 10, 99, 100] 1 = 2" by code_simp
  have t: "runesToString (lineText [97, 98, 13, 10, 99, 100] 0) = [97, 98]" by code_simp
  have h0: "1 \<le> lineLength (docString (NewRope [97, 98, 13, 10, 99, 100])) 0" using d l0 by simp
  have h1: "1 \<le> lineLength (docString (NewRope [97, 98, 13, 10, 99, 100])) 1" using d l1 by simp
  have a: "Delete (NewRope [97, 98, 13, 10, 99, 100]) 0 9 = Delete (NewRope [97, 98, 13, 10, 99, 100]) 0 3
      \<and> Delete (NewRope [97, 98, 13, 10, 99, 100]) 0 0
           = Some (NewRope [97, 98, 13, 10, 99, 100], Some DeleteAtStartOfDocument)
      \<and> GetLine (NewRope [97, 98, 13, 10, 99, 100]) 0 = Some [97, 98]"
    using Delete_clamps_column [OF r _ _ h0, of 9] lc d l0 t by simp
  have b: "Delete (NewRope [97, 98, 13, 10, 99, 100]) 0 (- 1)
       = Some (NewRope [97, 98, 13, 10, 99, 100], Some NothingToDeleteAtStart)"
    using Delete_clamps_column [OF r _ _ h0, of "- 1"] lc by simp
  have c: "Delete (NewRope [97, 98, 13, 10, 99, 100]) 1 (- 1) = Delete (NewRope [97, 98, 13, 10, 99, 100]) 1 0"
    using Delete_clamps_column [OF r _ _ h1, of "- 1"] lc by simp
  show ?thesis using r lc d l0 l1 a b c ex_rope5 ex_rope6 by simp
qed

section \<open>Properties of undo, redo and the key handler\<close>

text \<open>
  Claim C1 at the runs the claim names.  The keys \<open>h e l l o\<close>, 100 ms apart, leave five
  actions on the undo stack, one for each key and each in a group of its own; one undo
  (Ctrl+U) then takes a single code point away and the document reads \<open>helo\<close>, where the
  claim has it empty.  With a pause of 1900 ms after \<open>he\<close> the outcome is the same, where
  the claim has \<open>he\<close>.  The typing handler never opens or extends a typing group, so the
  clock has no part in the grouping, and the position it records for the undo is the
  column of the insertion, at which \<open>Delete\<close> removes the code point before the one typed.
\<close>
theorem typing_is_not_coalesced:
  "map_option (\<lambda>(e, err). (docString (buffer e), length (undoStack e)))
     (handleKeys quietWorld [(104, 0), (101, 100), (108, 200), (108, 300), (111, 400)] (NewEditor []))
   = Some ([104, 101, 108, 108, 111], 5)
   \<and> map_option (\<lambda>(e, err). docString (buffer e))
     (handleKeys quietWorld [(104, 0), (101, 100), (108, 200), (108, 300), (111, 400), (0x15, 500)]
        (NewEditor []))
   = Some [104, 101, 108, 111]
   \<and> map_option (\<lambda>(e, err). docString (buffer e))
     (handleKeys quietWorld [(104, 0), (101, 100), (108, 2000), (108, 2100), (111, 2200), (0x15, 2300)]
        (NewEditor []))
   = Some [104, 101, 108, 111]"
  by code_simp

text \<open>
  Claim C2 at a run of four keys: paste of \<open>a\<close> and a newline, \<open>x\<close>, undo, undo.  After
  the third key the document is \<open>ax\<close> on one line and the undo stack holds the paste,
  one action of two entries whose replay begins with \<open>Delete(1, 0)\<close>; the buffer returns an
  error for it, line 1 being out of bounds.  The fourth key replays the paste all the
  same: the error is dropped, the \<open>Delete\<close> for \<open>a\<close> is carried out, the document is \<open>x\<close>,
  the status line reads \<open>Undid last action\<close> and \<open>handleKey\<close> returns nil.
\<close>
theorem undo_ignores_buffer_errors:
  "map_option (\<lambda>(e, err). (docString (buffer e), map ops (undoStack e),
                            map_option snd (Delete (buffer e) 1 0)))
     (handleKeys (quietWorld\<lparr>clipboardText := Some [97, 10]\<rparr>)
        [(0x16, 0), (120, 100), (0x15, 200)] (NewEditor []))
   = Some ([97, 120],
           [[\<lparr>insertLine = 0, insertCol = 0, delLine = 0, delCol = 1, opRune = 97\<rparr>,
             \<lparr>insertLine = 0, insertCol = 1, delLine = 1, delCol = 0, opRune = 10\<rparr>]],
           Some (Some (InvalidPosition 1 0 (LineOutOfBounds 1 0))))
   \<and> map_option (\<lambda>(e, err). (docString (buffer e), statusMessage e, err))
     (handleKeys (quietWorld\<lparr>clipboardText := Some [97, 10]\<rparr>)
        [(0x16, 0), (120, 100), (0x15, 200), (0x15, 300)] (NewEditor []))
   = Some ([120], Text ''Undid last action'', None)"
  by code_simp

text \<open>
  Claim C3 at the keys \<open>a b\<close>.  The action recorded for \<open>b\<close> has the delete position
  (0, 1), the column where \<open>b\<close> went in and not the one behind it.  Undo of that action
  removes \<open>a\<close>, and redo inserts \<open>b\<close> again at column 1: the document is \<open>bb\<close>, and was
  \<open>ab\<close> before the undo.
\<close>
theorem redo_after_undo_is_not_inverse:
  "map_option (\<lambda>(e, err). (docString (buffer e), map ops (undoStack e)))
     (handleKeys quietWorld [(97, 0), (98, 100)] (NewEditor []))
   = Some ([97, 98],
           [[\<lparr>insertLine = 0, insertCol = 0, delLine = 0, delCol = 0, opRune = 97\<rparr>],
            [\<lparr>insertLine = 0, insertCol = 1, delLine = 0, delCol = 1, opRune = 98\<rparr>]])
   \<and> map_option (\<lambda>(e, err). docString (buffer e))
     (handleKeys quietWorld [(97, 0), (98, 100), (0x15, 200)] (NewEditor []))
   = Some [98]
   \<and> map_option (\<lambda>(e, err). docString (buffer e))
     (handleKeys quietWorld [(97, 0), (98, 100), (0x15, 200), (0x19, 300)] (NewEditor []))
   = Some [98, 98]"
  by code_simp


lemma forEach_preserves:
  assumes "\<And>x s s'. f x s = Some s' \<Longrightarrow> g s' = g s"
  shows "forEach f xs s = Some s' \<Longrightarrow> g s' = g s"
proof (induction xs arbitrary: s)
  case Nil
  then show ?case by simp
next
  case (Cons x xs)
  then obtain s1 where s1: "f x s = Some s1" "forEach f xs s1 = Some s'"
    by (auto split: option.splits)
  have "g s' = g s1" using Cons.IH [OF s1(2)] .
  then show ?case using assms [OF s1(1)] by simp
qed


lemma bufDelete_redo: "bufDelete line col e = Some e' \<Longrightarrow> redoStack e' = redoStack e"
  by (auto simp add: bufDelete_def split: option.splits prod.splits)

lemma pushUndoInsertBlock_redo: "redoStack (pushUndoInsertBlock es e) = redoStack e"
  by (simp add: pushUndoInsertBlock_def Let_def)

lemma pushUndoDeleteBlock_redo: "redoStack (pushUndoDeleteBlock es b e) = redoStack e"
  by (simp add: pushUndoDeleteBlock_def Let_def)

lemma pushUndoDeleteIfExternalGrouping_redo:
  "redoStack (pushUndoDeleteIfExternalGrouping line col ru e) = redoStack e"
  by (simp add: pushUndoDeleteIfExternalGrouping_def Let_def)

lemma beginUndoGroup_redo: "redoStack (beginUndoGroup e) = redoStack e"
  by (simp add: beginUndoGroup_def)

lemma endUndoGroup_redo: "redoStack (endUndoGroup e) = redoStack e"
  by (simp add: endUndoGroup_def)

lemma flushTypingGroup_redo: "redoStack (flushTypingGroup e) = redoStack e"
  by (simp add: flushTypingGroup_def Let_def pushUndoInsertBlock_redo)

lemma flushBackspaceGroup_redo: "redoStack (flushBackspaceGroup e) = redoStack e"
  by (simp add: flushBackspaceGroup_def Let_def pushUndoDeleteBlock_redo)

lemma flushDeleteGroup_redo: "redoStack (flushDeleteGroup e) = redoStack e"
  by (simp add: flushDeleteGroup_def Let_def pushUndoDeleteBlock_redo)

lemmas flush_redo = flushTypingGroup_redo flushBackspaceGroup_redo flushDeleteGroup_redo
  beginUndoGroup_redo endUndoGroup_redo pushUndoInsertBlock_redo pushUndoDeleteBlock_redo
  pushUndoDeleteIfExternalGrouping_redo

lemma flushEditGroups_redo: "redoStack (flushEditGroups e) = redoStack e"
  by (simp add: flushEditGroups_def flush_redo)

lemma flushTypingAndBackspaceIfNeeded_redo: "redoStack (flushTypingAndBackspaceIfNeeded e) = redoStack e"
  by (simp add: flushTypingAndBackspaceIfNeeded_def flush_redo)

lemma deleteColumns_redo: "deleteColumns line hi lo e = Some e' \<Longrightarrow> redoStack e' = redoStack e"
  unfolding deleteColumns_def by (rule forEach_preserves [where g = redoStack]) (rule bufDelete_redo)

lemma middleLines_redo:
  "forEach (\<lambda>y ea. case bufDelete (y + 1) 0 ea of None \<Rightarrow> None
       | Some eb \<Rightarrow> (case lineRunes eb y of None \<Rightarrow> None
            | Some rs \<Rightarrow> deleteColumns y (int (length rs) - 1) 0 eb)) ys e = Some e'
   \<Longrightarrow> redoStack e' = redoStack e"
proof (rule forEach_preserves [where g = redoStack])
  fix x s s'
  assume "(case bufDelete (x + 1) 0 s of None \<Rightarrow> None
       | Some eb \<Rightarrow> (case lineRunes eb x of None \<Rightarrow> None
            | Some rs \<Rightarrow> deleteColumns x (int (length rs) - 1) 0 eb)) = Some s'"
  then have "\<exists>eb a. bufDelete (x + 1) 0 s = Some eb
      \<and> deleteColumns x a 0 eb = Some s'"
    by (auto split: option.splits)
  then show "redoStack s' = redoStack s" using bufDelete_redo deleteColumns_redo by metis
qed

lemma deleteSelectedText_redo:
  assumes "deleteSelectedText e = Some e'"
  shows "redoStack e' = redoStack e"
proof (cases "selectionActive e")
  case False
  then show ?thesis using assms by (simp add: deleteSelectedText_def)
next
  case True
  obtain startY startX endY endX where c: "getSelectionCoords e = (startY, startX, endY, endX)"
    by (cases "getSelectionCoords e") auto
  define f where "f = flushTypingAndBackspaceIfNeeded e"
  have rf: "redoStack f = redoStack e" by (simp add: f_def flushTypingAndBackspaceIfNeeded_redo)
  show ?thesis
  proof (cases "startY = endY")
    case same: True
    from assms True c same have "\<exists>entries e5 a1.
      deleteColumns startY a1 startX f = Some e5
      \<and> e' = (pushUndoDeleteBlock entries False e5)\<lparr>cursorY := startY, cursorX := startX, selectionActive := False\<rparr>"
      unfolding deleteSelectedText_def f_def [symmetric] Let_def
      by (auto split: option.splits prod.splits)
    then obtain entries e5 a1 where "deleteColumns startY a1 startX f = Some e5"
      "e' = (pushUndoDeleteBlock entries False e5)\<lparr>cursorY := startY, cursorX := startX, selectionActive := False\<rparr>"
      by blast
    then have "redoStack e5 = redoStack f" "redoStack e' = redoStack e5"
      using deleteColumns_redo by (simp_all add: pushUndoDeleteBlock_redo)
    then show ?thesis using rf by simp
  next
    case diff: False
    from assms True c diff have "\<exists>entries e1 e2 e3 e5 a1 a2.
      deleteColumns endY a1 0 f = Some e1
      \<and> forEach (\<lambda>y ea. case bufDelete (y + 1) 0 ea of None \<Rightarrow> None
         | Some eb \<Rightarrow> (case lineRunes eb y of None \<Rightarrow> None
              | Some rs \<Rightarrow> deleteColumns y (int (length rs) - 1) 0 eb))
         (rev [startY + 1..endY - 1]) e1 = Some e2
      \<and> bufDelete (startY + 1) 0 e2 = Some e3
      \<and> deleteColumns startY a2 startX e3 = Some e5
      \<and> e' = (pushUndoDeleteBlock entries False e5)\<lparr>cursorY := startY, cursorX := startX, selectionActive := False\<rparr>"
      unfolding deleteSelectedText_def f_def [symmetric] Let_def
      by (auto split: option.splits prod.splits) blast
    then obtain entries e1 e2 e3 e5 a1 a2 where
      "deleteColumns endY a1 0 f = Some e1"
      "forEach (\<lambda>y ea. case bufDelete (y + 1) 0 ea of None \<Rightarrow> None
         | Some eb \<Rightarrow> (case lineRunes eb y of None \<Rightarrow> None
              | Some rs \<Rightarrow> deleteColumns y (int (length rs) - 1) 0 eb))
         (rev [startY + 1..endY - 1]) e1 = Some e2"
      "bufDelete (startY + 1) 0 e2 = Some e3"
      "deleteColumns startY a2 startX e3 = Some e5"
      "e' = (pushUndoDeleteBlock entries False e5)\<lparr>cursorY := startY, cursorX := startX, selectionActive := False\<rparr>"
      by blast
    then have "redoStack e1 = redoStack f" "redoStack e2 = redoStack e1" "redoStack e3 = redoStack e2"
      "redoStack e5 = redoStack e3" "redoStack e' = redoStack e5"
      using deleteColumns_redo middleLines_redo bufDelete_redo
      by (simp_all add: pushUndoDeleteBlock_redo)
    then show ?thesis using rf by simp
  qed
qed











lemma deleteSelection_redo: "deleteSelection e = Some e' \<Longrightarrow> redoStack e' = redoStack e"
  using deleteSelectedText_redo [of "beginUndoGroup e"]
  by (auto simp add: deleteSelection_def flush_redo)



lemma setSelecting_redo: "redoStack (setSelecting b e) = redoStack e"
  by (simp add: setSelecting_def)

lemma wordRightFrom_redo: "wordRightFrom wd rs x e = Some e' \<Longrightarrow> redoStack e' = redoStack e"
  by (auto simp add: wordRightFrom_def Let_def split: option.splits if_splits)

lemma moveWordRight_redo:
  assumes "moveWordRight wd b e = Some e'"
  shows "redoStack e' = redoStack e"
  using assms unfolding moveWordRight_def Let_def
  by (auto split: option.splits if_splits dest!: wordRightFrom_redo simp add: setSelecting_redo)



lemma handleDeleteWordRight_redo:
  assumes "handleDeleteWordRight wd e = Some e'"
  shows "redoStack e' = redoStack e"
  using assms unfolding handleDeleteWordRight_def Let_def
  by (auto split: option.splits if_splits dest!: deleteSelection_redo moveWordRight_redo
      simp add: flushEditGroups_redo)












end
